theory Spec2Isabelle
  imports Main "HOL-Library.Word"
begin

section \<open>Data model of \<open>plugin/loader.go\<close>\<close>

text \<open>
  Go's \<open>[]byte\<close> is a slice that may be \<open>nil\<close>: \<open>None\<close> is the nil slice, \<open>Some bs\<close> a
  non-nil slice holding \<open>bs\<close>. \<open>int64\<close> and \<open>time.Duration\<close> (an \<open>int64\<close> of nanoseconds)
  are 64-bit words; \<open>sint\<close> reads them as Go does. An \<open>error\<close> is its message.
\<close>

type_synonym byte = "8 word"
type_synonym slice = "byte list option"
type_synonym int64 = "64 word"
type_synonym duration = "64 word"
type_synonym go_error = string

definition slice_bytes :: "slice \<Rightarrow> byte list" where
  "slice_bytes b = (case b of None \<Rightarrow> [] | Some bs \<Rightarrow> bs)"

text \<open>
  \<open>bytes.Equal\<close> of the Go standard library: same length and same bytes; a nil argument
  is equivalent to an empty slice.
\<close>

definition bytes_Equal :: "slice \<Rightarrow> slice \<Rightarrow> bool" where
  "bytes_Equal a b = (slice_bytes a = slice_bytes b)"

definition Millisecond :: duration where
  "Millisecond = 1000000"

record Options =
  PollingInterval :: duration

record event =
  Type :: string
  Action :: string

record request =
  Method :: string
  URL :: string
  Header :: "(string \<times> string) list"
  Body :: slice

text \<open>
  A response as \<open>updateServer\<close> reads it: the status code, and what
  \<open>ioutil.ReadAll(resp.Body)\<close> returns.
\<close>

record response =
  StatusCode :: int
  ReadAll :: "go_error + slice"

text \<open>
  The loader acts on objects other goroutines share with it: the timer, the flag
  \<open>skipEvents\<close>, the generator, the adapter, the two concurrent maps and the HTTP client.
  \<open>effects\<close> records these operations in program order, so that "is invoked", "a network
  call is made" and "before" are statements about a list.
\<close>

datatype effect =
    TimerReset duration
  | SetSkipEvents bool
  | CallGenerate
  | CallAdapt slice
  | UpdatingSet string bool
  | UpdatingDelete string
  | VersionsSet string int64
  | CallDo request

subsection \<open>The concurrent maps\<close>

text \<open>
  Modelled from the spec: \<open>StringInt64CMap\<close> and \<open>StringBoolCMap\<close> (declared in a file of
  the package that is not among the sources). The spec describes them as thread-safe
  mappings from a server address to an integer version and to a boolean in-flight flag,
  supporting get, set and delete, with entries created lazily and a version that starts
  at 0: \<open>Get\<close> of an absent key is the zero value of the value type.
\<close>

type_synonym StringInt64CMap = "string \<rightharpoonup> int64"
type_synonym StringBoolCMap = "string \<rightharpoonup> bool"

definition newStringInt64CMap :: StringInt64CMap where
  "newStringInt64CMap = Map.empty"

definition newStringBoolCMap :: StringBoolCMap where
  "newStringBoolCMap = Map.empty"

definition Int64_Get :: "StringInt64CMap \<Rightarrow> string \<Rightarrow> int64" where
  "Int64_Get m k = (case m k of None \<Rightarrow> 0 | Some v \<Rightarrow> v)"

definition Int64_Set :: "StringInt64CMap \<Rightarrow> string \<Rightarrow> int64 \<Rightarrow> StringInt64CMap" where
  "Int64_Set m k v = m(k \<mapsto> v)"

definition Bool_Get :: "StringBoolCMap \<Rightarrow> string \<Rightarrow> bool" where
  "Bool_Get m k = (case m k of None \<Rightarrow> False | Some v \<Rightarrow> v)"

definition Bool_Set :: "StringBoolCMap \<Rightarrow> string \<Rightarrow> bool \<Rightarrow> StringBoolCMap" where
  "Bool_Set m k v = m(k \<mapsto> v)"

definition Bool_Delete :: "StringBoolCMap \<Rightarrow> string \<Rightarrow> StringBoolCMap" where
  "Bool_Delete m k = m(k := None)"

subsection \<open>The loader\<close>

text \<open>
  \<open>timer\<close> is the pending delay of the one \<open>time.Timer\<close> (\<open>None\<close> before \<open>Start\<close> creates
  it); \<open>Reset\<close> replaces it. The fields \<open>initialized\<close>, \<open>dockerClient\<close> and \<open>generator\<close>
  hold the collaborators, which the model passes as arguments.
\<close>

record DockerLoader =
  options :: Options
  timer :: "duration option"
  skipEvents :: bool
  lastCaddyfile :: slice
  lastJSONConfig :: slice
  lastVersion :: int64
  serversVersions :: StringInt64CMap
  serversUpdating :: StringBoolCMap
  effects :: "effect list"

definition CreateDockerLoader :: "Options \<Rightarrow> DockerLoader" where
  "CreateDockerLoader opts =
     \<lparr> options = opts, timer = None, skipEvents = False, lastCaddyfile = None,
       lastJSONConfig = None, lastVersion = 0,
       serversVersions = newStringInt64CMap, serversUpdating = newStringBoolCMap,
       effects = [] \<rparr>"

definition emit :: "effect \<Rightarrow> DockerLoader \<Rightarrow> DockerLoader" where
  "emit e s = s\<lparr>effects := effects s @ [e]\<rparr>"

definition timer_Reset :: "duration \<Rightarrow> DockerLoader \<Rightarrow> DockerLoader" where
  "timer_Reset d s = emit (TimerReset d) (s\<lparr>timer := Some d\<rparr>)"

definition set_skipEvents :: "bool \<Rightarrow> DockerLoader \<Rightarrow> DockerLoader" where
  "set_skipEvents b s = emit (SetSkipEvents b) (s\<lparr>skipEvents := b\<rparr>)"

subsection \<open>\<open>listenEvents\<close>\<close>

text \<open>The local \<open>update\<close> of \<open>listenEvents\<close>: the ten qualifying (type, action) pairs.\<close>

definition event_update :: "event \<Rightarrow> bool" where
  "event_update ev =
     ((Type ev = ''container'' \<and> Action ev = ''create'') \<or>
      (Type ev = ''container'' \<and> Action ev = ''start'') \<or>
      (Type ev = ''container'' \<and> Action ev = ''stop'') \<or>
      (Type ev = ''container'' \<and> Action ev = ''die'') \<or>
      (Type ev = ''container'' \<and> Action ev = ''destroy'') \<or>
      (Type ev = ''service'' \<and> Action ev = ''create'') \<or>
      (Type ev = ''service'' \<and> Action ev = ''update'') \<or>
      (Type ev = ''service'' \<and> Action ev = ''remove'') \<or>
      (Type ev = ''config'' \<and> Action ev = ''create'') \<or>
      (Type ev = ''config'' \<and> Action ev = ''remove''))"

text \<open>
  What the \<open>select\<close> of the loop receives: an event, or a value of the error channel
  (which may be nil). The loop runs until the error channel delivers; the result says
  whether it returned (\<open>True\<close>) or still waits on the exhausted stream (\<open>False\<close>).
\<close>

datatype stream_msg = EventMsg event | ErrorMsg "go_error option"

fun listenEvents :: "stream_msg list \<Rightarrow> DockerLoader \<Rightarrow> bool \<times> DockerLoader" where
  "listenEvents [] s = (False, s)"
| "listenEvents (EventMsg ev # rest) s =
     (if skipEvents s then listenEvents rest s
      else if event_update ev
        then listenEvents rest (timer_Reset (100 * Millisecond) (set_skipEvents True s))
        else listenEvents rest s)"
| "listenEvents (ErrorMsg err # rest) s = (True, s)"

subsection \<open>Collaborators\<close>

text \<open>
  \<open>caddy.Config\<close> and \<open>caddy.AdminConfig\<close> are structs of the Caddy library. The loader
  touches \<open>Config.Admin\<close> (a pointer, \<open>None\<close> when nil) and \<open>AdminConfig.Listen\<close>; the
  remaining fields of the two structs are kept as \<open>ConfigOther\<close> and \<open>AdminOther\<close>.
\<close>

record 'a AdminConfig =
  Listen :: string
  AdminOther :: 'a

record ('a, 'r) Config =
  Admin :: "'a AdminConfig option"
  ConfigOther :: 'r

text \<open>
  The library functions the loader calls, as parameters: the Caddyfile adapter
  (\<open>configJSON\<close>, \<open>warn\<close>, \<open>err\<close>), \<open>json.Unmarshal\<close> into a fresh \<open>caddy.Config\<close>,
  \<open>json.Marshal\<close>, the zero value of the fields of \<open>AdminConfig\<close> that the struct literal
  \<open>&caddy.AdminConfig{Listen: listen}\<close> leaves out, the error of \<open>http.NewRequest\<close> for a
  method and a URL it refuses, and \<open>http.DefaultClient.Do\<close>.
\<close>

record ('a, 'r) deps =
  Adapt :: "slice \<Rightarrow> slice \<times> string list \<times> go_error option"
  json_Unmarshal :: "slice \<Rightarrow> go_error + ('a, 'r) Config"
  json_Marshal :: "('a, 'r) Config \<Rightarrow> go_error + slice"
  zeroAdminOther :: 'a
  NewRequest_error :: "string \<Rightarrow> string \<Rightarrow> go_error option"
  Do :: "request \<Rightarrow> go_error + response"

definition http_NewRequest ::
  "('a, 'r) deps \<Rightarrow> string \<Rightarrow> string \<Rightarrow> slice \<Rightarrow> go_error + request" where
  "http_NewRequest d m url body =
     (case NewRequest_error d m url of
        Some err \<Rightarrow> Inl err
      | None \<Rightarrow> Inr \<lparr> Method = m, URL = url, Header = [], Body = body \<rparr>)"

text \<open>\<open>Header.Set\<close>: the key's values are replaced by the one value.\<close>

definition Header_Set :: "string \<Rightarrow> string \<Rightarrow> request \<Rightarrow> request" where
  "Header_Set k v req = req\<lparr>Header := (k, v) # filter (\<lambda>kv. fst kv \<noteq> k) (Header req)\<rparr>"

subsection \<open>\<open>addAdminListen\<close>\<close>

definition addAdminListen :: "('a, 'r) deps \<Rightarrow> slice \<Rightarrow> string \<Rightarrow> go_error + slice" where
  "addAdminListen d configJSON listen =
     (case json_Unmarshal d configJSON of
        Inl err \<Rightarrow> Inl err
      | Inr config \<Rightarrow>
          json_Marshal d
            (config\<lparr>Admin := Some \<lparr> Listen = listen, AdminOther = zeroAdminOther d \<rparr>\<rparr>))"

subsection \<open>\<open>updateServer\<close>\<close>

text \<open>
  One call of \<open>updateServer\<close> run from entry to return with no other goroutine in
  between. \<open>pushRequest\<close> is lines 221 to 234 (the URL, the payload, the request and
  its header), \<open>pushConfig\<close> lines 219 to 255, the part after the two skip checks; the
  deferred \<open>serversUpdating.Delete\<close> runs on every return after line 210.
\<close>

definition pushRequest :: "('a, 'r) deps \<Rightarrow> string \<Rightarrow> DockerLoader \<Rightarrow> go_error + request" where
  "pushRequest d server s =
     (let url = ''http://'' @ server @ '':2019/load'' in
      case addAdminListen d (lastJSONConfig s) (''tcp/'' @ server @ '':2019'') of
        Inl err \<Rightarrow> Inl err
      | Inr postBody \<Rightarrow>
          (case http_NewRequest d ''POST'' url postBody of
             Inl err \<Rightarrow> Inl err
           | Inr req \<Rightarrow> Inr (Header_Set ''Content-Type'' ''application/json'' req)))"

definition pushConfig :: "('a, 'r) deps \<Rightarrow> string \<Rightarrow> int64 \<Rightarrow> DockerLoader \<Rightarrow> DockerLoader" where
  "pushConfig d server version s =
     (case pushRequest d server s of
        Inl err \<Rightarrow> s
      | Inr req \<Rightarrow>
          let s1 = emit (CallDo req) s
          in (case Do d req of
                Inl err \<Rightarrow> s1
              | Inr resp \<Rightarrow>
                  (case ReadAll resp of
                     Inl err \<Rightarrow> s1
                   | Inr bodyBytes \<Rightarrow>
                       if StatusCode resp \<noteq> 200 then s1
                       else emit (VersionsSet server version)
                              (s1\<lparr>serversVersions :=
                                    Int64_Set (serversVersions s1) server version\<rparr>))))"

definition updateServer :: "('a, 'r) deps \<Rightarrow> string \<Rightarrow> DockerLoader \<Rightarrow> DockerLoader" where
  "updateServer d server s =
     (if Bool_Get (serversUpdating s) server then s
      else
        let s1 = emit (UpdatingSet server True)
                   (s\<lparr>serversUpdating := Bool_Set (serversUpdating s) server True\<rparr>);
            version = lastVersion s1;
            s2 = (if sint version \<le> sint (Int64_Get (serversVersions s1) server) then s1
                  else pushConfig d server version s1)
        in emit (UpdatingDelete server)
             (s2\<lparr>serversUpdating := Bool_Delete (serversUpdating s2) server\<rparr>))"

subsection \<open>\<open>update\<close>\<close>

text \<open>
  One rebuild. The generator's answer for this call is the argument \<open>gen\<close>
  (\<open>caddyfile\<close>, \<open>controlledServers\<close>). The goroutines of the loop at lines 191 to 195
  run here one after the other in list order, which is one of the schedules
  \<open>wg.Wait\<close> admits; section "Interleaved pushes" has the others.
\<close>

definition update ::
  "('a, 'r) deps \<Rightarrow> slice \<times> string list \<Rightarrow> DockerLoader \<Rightarrow> bool \<times> DockerLoader" where
  "update d gen s =
     (let s1 = timer_Reset (PollingInterval (options s)) s;
          s2 = set_skipEvents False s1;
          (caddyfile, controlledServers) = gen;
          s3 = emit CallGenerate s2;
          caddyfileChanged = \<not> bytes_Equal (lastCaddyfile s3) caddyfile;
          s4 = s3\<lparr>lastCaddyfile := caddyfile\<rparr>
      in if caddyfileChanged then
           (case Adapt d caddyfile of
              (configJSON, warn, err) \<Rightarrow>
                let s5 = emit (CallAdapt caddyfile) s4 in
                if err \<noteq> None then (False, s5)
                else (True,
                      foldl (\<lambda>st server. updateServer d server st)
                        (s5\<lparr>lastJSONConfig := configJSON, lastVersion := lastVersion s5 + 1\<rparr>)
                        controlledServers))
         else (True, foldl (\<lambda>st server. updateServer d server st) s4 controlledServers))"

subsection \<open>Runs of the loader\<close>

text \<open>
  What happens to the loader, one thing after the other: the timer fires and runs
  \<open>update\<close> (the callback \<open>Start\<close> gives \<open>time.AfterFunc\<close>), with the collaborators'
  behaviour and the generator's answer at that moment, or the event loop receives one
  event. \<open>accepts\<close> says that a step is a rebuild whose output differs from the previous
  one and which the adapter accepts; \<open>accepted\<close> counts these steps along a run.
\<close>

datatype ('a, 'r) action =
    TimerFires "('a, 'r) deps" "slice \<times> string list"
  | EventArrives event

fun step :: "('a, 'r) action \<Rightarrow> DockerLoader \<Rightarrow> DockerLoader" where
  "step (TimerFires d gen) s = snd (update d gen s)"
| "step (EventArrives ev) s = snd (listenEvents [EventMsg ev] s)"

definition run :: "('a, 'r) action list \<Rightarrow> DockerLoader \<Rightarrow> DockerLoader" where
  "run acts s = foldl (\<lambda>st a. step a st) s acts"

fun accepts :: "('a, 'r) action \<Rightarrow> DockerLoader \<Rightarrow> bool" where
  "accepts (TimerFires d gen) s =
     (\<not> bytes_Equal (lastCaddyfile s) (fst gen) \<and> snd (snd (Adapt d (fst gen))) = None)"
| "accepts (EventArrives ev) s = False"

fun accepted :: "('a, 'r) action list \<Rightarrow> DockerLoader \<Rightarrow> nat" where
  "accepted [] s = 0"
| "accepted (a # acts) s = (if accepts a s then 1 else 0) + accepted acts (step a s)"

text \<open>A step whose generator output, if it is a rebuild, is an empty byte sequence.\<close>

fun empty_output :: "('a, 'r) action \<Rightarrow> bool" where
  "empty_output (TimerFires d gen) = (slice_bytes (fst gen) = [])"
| "empty_output (EventArrives ev) = True"

subsection \<open>Reading the record of effects\<close>

definition new_effects :: "DockerLoader \<Rightarrow> DockerLoader \<Rightarrow> effect list" where
  "new_effects s s' = drop (length (effects s)) (effects s')"

fun is_CallAdapt :: "effect \<Rightarrow> bool" where
  "is_CallAdapt (CallAdapt c) = True"
| "is_CallAdapt e = False"

fun is_CallDo :: "effect \<Rightarrow> bool" where
  "is_CallDo (CallDo r) = True"
| "is_CallDo e = False"

fun is_rearm :: "effect \<Rightarrow> bool" where
  "is_rearm (TimerReset dl) = True"
| "is_rearm (SetSkipEvents b) = True"
| "is_rearm e = False"

text \<open>
  A loader in which nothing has been accepted and nothing pushed: version 0, an empty
  previous Caddyfile, no applied version recorded, no call of the adapter or of the HTTP
  client so far.
\<close>

definition quiet :: "DockerLoader \<Rightarrow> bool" where
  "quiet s = (lastVersion s = 0 \<and> slice_bytes (lastCaddyfile s) = [] \<and>
      serversVersions s = Map.empty \<and> filter is_CallDo (effects s) = [] \<and>
      filter is_CallAdapt (effects s) = [])"

section \<open>Interleaved pushes\<close>

text \<open>
  \<open>update\<close> starts \<open>updateServer\<close> as a goroutine per server, and the timer runs each
  \<open>update\<close> in a goroutine of its own (\<open>time.AfterFunc\<close>), whether or not an earlier one
  has returned. So calls of \<open>updateServer\<close> interleave. The concurrent maps make each
  \<open>Get\<close>, \<open>Set\<close> and \<open>Delete\<close> atomic, nothing more: a call is a sequence of atomic steps,
  one per program point, and other calls may step in between.

  Program points of \<open>updateServer\<close>: \<open>AtBusyCheck\<close> line 204, \<open>AtSetBusy\<close> line 209,
  \<open>AtSnapshot\<close> line 212, \<open>AtVersionCheck\<close> line 215, \<open>AtSend\<close> lines 219 to 235 (the
  request is built and handed to the client), \<open>AtAwait\<close> lines 235 to 251 (the call is on
  the network until \<open>Do\<close> and \<open>ReadAll\<close> return), \<open>AtRecord\<close> line 253, \<open>AtUnflag\<close> the
  deferred \<open>Delete\<close> of line 210, \<open>Returned\<close>.
\<close>

datatype push_pc =
  AtBusyCheck | AtSetBusy | AtSnapshot | AtVersionCheck | AtSend | AtAwait | AtRecord
  | AtUnflag | Returned

record push_task =
  t_server :: string
  t_pc :: push_pc
  t_version :: int64
  t_result :: "go_error + response"

definition new_task :: "string \<Rightarrow> push_task" where
  "new_task server = \<lparr> t_server = server, t_pc = AtBusyCheck, t_version = 0, t_result = Inl [] \<rparr>"

definition push_step ::
  "('a, 'r) deps \<Rightarrow> push_task \<Rightarrow> DockerLoader \<Rightarrow> push_task \<times> DockerLoader" where
  "push_step d t s =
     (let server = t_server t in
      case t_pc t of
        AtBusyCheck \<Rightarrow>
          if Bool_Get (serversUpdating s) server then (t\<lparr>t_pc := Returned\<rparr>, s)
          else (t\<lparr>t_pc := AtSetBusy\<rparr>, s)
      | AtSetBusy \<Rightarrow>
          (t\<lparr>t_pc := AtSnapshot\<rparr>,
           emit (UpdatingSet server True)
             (s\<lparr>serversUpdating := Bool_Set (serversUpdating s) server True\<rparr>))
      | AtSnapshot \<Rightarrow> (t\<lparr>t_pc := AtVersionCheck, t_version := lastVersion s\<rparr>, s)
      | AtVersionCheck \<Rightarrow>
          if sint (t_version t) \<le> sint (Int64_Get (serversVersions s) server)
          then (t\<lparr>t_pc := AtUnflag\<rparr>, s)
          else (t\<lparr>t_pc := AtSend\<rparr>, s)
      | AtSend \<Rightarrow>
          (case pushRequest d server s of
             Inl err \<Rightarrow> (t\<lparr>t_pc := AtUnflag\<rparr>, s)
           | Inr req \<Rightarrow> (t\<lparr>t_pc := AtAwait, t_result := Do d req\<rparr>, emit (CallDo req) s))
      | AtAwait \<Rightarrow>
          (case t_result t of
             Inl err \<Rightarrow> (t\<lparr>t_pc := AtUnflag\<rparr>, s)
           | Inr resp \<Rightarrow>
               (case ReadAll resp of
                  Inl err \<Rightarrow> (t\<lparr>t_pc := AtUnflag\<rparr>, s)
                | Inr bodyBytes \<Rightarrow>
                    if StatusCode resp \<noteq> 200 then (t\<lparr>t_pc := AtUnflag\<rparr>, s)
                    else (t\<lparr>t_pc := AtRecord\<rparr>, s)))
      | AtRecord \<Rightarrow>
          (t\<lparr>t_pc := AtUnflag\<rparr>,
           emit (VersionsSet server (t_version t))
             (s\<lparr>serversVersions := Int64_Set (serversVersions s) server (t_version t)\<rparr>))
      | AtUnflag \<Rightarrow>
          (t\<lparr>t_pc := Returned\<rparr>,
           emit (UpdatingDelete server)
             (s\<lparr>serversUpdating := Bool_Delete (serversUpdating s) server\<rparr>))
      | Returned \<Rightarrow> (t, s))"

text \<open>
  The system: the loader and the calls of \<open>updateServer\<close> that have been started. A
  schedule is a list of moves: \<open>Rebuild gen\<close> is an \<open>update\<close> up to its loop (lines 159 to
  188, which is \<open>update\<close> on an empty server list), after which its goroutines are
  started; \<open>Move i\<close> lets call number \<open>i\<close> take its next atomic step.
\<close>

record system =
  loader :: DockerLoader
  tasks :: "push_task list"

datatype move = Rebuild "slice \<times> string list" | Move nat

definition sys_step :: "('a, 'r) deps \<Rightarrow> system \<Rightarrow> move \<Rightarrow> system" where
  "sys_step d sy m =
     (case m of
        Rebuild gen \<Rightarrow>
          (case update d (fst gen, []) (loader sy) of
             (ok, s') \<Rightarrow>
               \<lparr> loader = s',
                 tasks = tasks sy @ (if ok then map new_task (snd gen) else []) \<rparr>)
      | Move i \<Rightarrow>
          if i < length (tasks sy)
          then (case push_step d (tasks sy ! i) (loader sy) of
                  (t', s') \<Rightarrow> \<lparr> loader = s', tasks = (tasks sy)[i := t'] \<rparr>)
          else sy)"

definition exec :: "('a, 'r) deps \<Rightarrow> move list \<Rightarrow> system \<Rightarrow> system" where
  "exec d ms sy = foldl (sys_step d) sy ms"

definition in_flight :: "string \<Rightarrow> system \<Rightarrow> nat" where
  "in_flight server sy =
     length (filter (\<lambda>t. t_server t = server \<and> t_pc t = AtAwait) (tasks sy))"

text \<open>
  A move whose generator output, if it is a rebuild, is an empty byte sequence; and a
  system in which nothing has been accepted or pushed and no call has got past the
  version check.
\<close>

fun empty_move :: "move \<Rightarrow> bool" where
  "empty_move (Rebuild gen) = (slice_bytes (fst gen) = [])"
| "empty_move (Move i) = True"

definition calm_task :: "push_task \<Rightarrow> bool" where
  "calm_task t = (t_version t = 0 \<and> t_pc t \<noteq> AtSend \<and> t_pc t \<noteq> AtAwait \<and> t_pc t \<noteq> AtRecord)"

definition calm :: "system \<Rightarrow> bool" where
  "calm sy = (quiet (loader sy) \<and> list_all calm_task (tasks sy))"

section \<open>Interleaved rebuilds\<close>

text \<open>
  \<open>Start\<close> gives \<open>update\<close> to \<open>time.AfterFunc\<close>, and \<open>update\<close> resets that timer in its
  first statement: every fire runs \<open>update\<close> in a goroutine of its own, and nothing in
  \<open>update\<close> waits for an earlier run or locks the fields it writes. So runs of \<open>update\<close>
  can overlap, and a run is a sequence of steps, one per statement that reads or writes
  what the runs share; tests of local variables belong to the step before them.

  Program points of \<open>update\<close>: \<open>AtTimerReset\<close> line 159, \<open>AtClearFlag\<close> line 160,
  \<open>AtGenerate\<close> line 162, \<open>AtCompare\<close> line 164, \<open>AtStore\<close> line 166 (and the test of
  line 168), \<open>AtAdapt\<close> lines 171 to 182 (the adapter call and the test of its error),
  \<open>AtSetJSON\<close> line 186, \<open>AtIncrement\<close> line 187, \<open>AtPushes\<close> lines 190 to 197 (the
  pushes, here one after the other as in \<open>update\<close>), \<open>UpdateReturned\<close> with the result.
\<close>

datatype update_pc =
  AtTimerReset | AtClearFlag | AtGenerate | AtCompare | AtStore | AtAdapt | AtSetJSON
  | AtIncrement | AtPushes | UpdateReturned bool

record update_call =
  u_gen :: "slice \<times> string list"
  u_pc :: update_pc
  u_changed :: bool
  u_configJSON :: slice

definition new_update :: "slice \<times> string list \<Rightarrow> update_call" where
  "new_update gen = \<lparr> u_gen = gen, u_pc = AtTimerReset, u_changed = False, u_configJSON = None \<rparr>"

definition update_step ::
  "('a, 'r) deps \<Rightarrow> update_call \<Rightarrow> DockerLoader \<Rightarrow> update_call \<times> DockerLoader" where
  "update_step d u s =
     (let caddyfile = fst (u_gen u); controlledServers = snd (u_gen u) in
      case u_pc u of
        AtTimerReset \<Rightarrow> (u\<lparr>u_pc := AtClearFlag\<rparr>, timer_Reset (PollingInterval (options s)) s)
      | AtClearFlag \<Rightarrow> (u\<lparr>u_pc := AtGenerate\<rparr>, set_skipEvents False s)
      | AtGenerate \<Rightarrow> (u\<lparr>u_pc := AtCompare\<rparr>, emit CallGenerate s)
      | AtCompare \<Rightarrow>
          (u\<lparr>u_pc := AtStore, u_changed := \<not> bytes_Equal (lastCaddyfile s) caddyfile\<rparr>, s)
      | AtStore \<Rightarrow>
          (u\<lparr>u_pc := (if u_changed u then AtAdapt else AtPushes)\<rparr>,
           s\<lparr>lastCaddyfile := caddyfile\<rparr>)
      | AtAdapt \<Rightarrow>
          (case Adapt d caddyfile of
             (configJSON, warn, err) \<Rightarrow>
               (u\<lparr>u_pc := (if err \<noteq> None then UpdateReturned False else AtSetJSON),
                  u_configJSON := configJSON\<rparr>,
                emit (CallAdapt caddyfile) s))
      | AtSetJSON \<Rightarrow> (u\<lparr>u_pc := AtIncrement\<rparr>, s\<lparr>lastJSONConfig := u_configJSON u\<rparr>)
      | AtIncrement \<Rightarrow> (u\<lparr>u_pc := AtPushes\<rparr>, s\<lparr>lastVersion := lastVersion s + 1\<rparr>)
      | AtPushes \<Rightarrow>
          (u\<lparr>u_pc := UpdateReturned True\<rparr>,
           foldl (\<lambda>st server. updateServer d server st) s controlledServers)
      | UpdateReturned ok \<Rightarrow> (u, s))"

text \<open>
  The loader and the runs of \<open>update\<close> that have been started: \<open>Fire gen\<close> is a fire of
  the timer, which starts a run whose generator will answer \<open>gen\<close>; \<open>Advance i\<close> lets run
  number \<open>i\<close> take its next step.
\<close>

record rebuilds =
  r_loader :: DockerLoader
  r_calls :: "update_call list"

datatype rebuild_move = Fire "slice \<times> string list" | Advance nat

definition rebuild_step :: "('a, 'r) deps \<Rightarrow> rebuilds \<Rightarrow> rebuild_move \<Rightarrow> rebuilds" where
  "rebuild_step d ry m =
     (case m of
        Fire gen \<Rightarrow> \<lparr> r_loader = r_loader ry, r_calls = r_calls ry @ [new_update gen] \<rparr>
      | Advance i \<Rightarrow>
          if i < length (r_calls ry)
          then (case update_step d (r_calls ry ! i) (r_loader ry) of
                  (u', s') \<Rightarrow> \<lparr> r_loader = s', r_calls = (r_calls ry)[i := u'] \<rparr>)
          else ry)"

definition rebuild_exec :: "('a, 'r) deps \<Rightarrow> rebuild_move list \<Rightarrow> rebuilds \<Rightarrow> rebuilds" where
  "rebuild_exec d ms ry = foldl (rebuild_step d) ry ms"

section \<open>Concrete inputs\<close>

text \<open>
  Inputs for evaluating the model: a polling interval of 30 seconds; collaborators whose
  adapter returns the Caddyfile's bytes as the JSON, whose \<open>json.Unmarshal\<close> keeps the
  bytes as the other fields of a configuration without an admin section, whose
  \<open>json.Marshal\<close> writes the listen address before them, and whose servers answer 200;
  the same collaborators with an adapter that refuses every Caddyfile; and the same with
  servers that answer 500.
\<close>

definition opts0 :: Options where
  "opts0 = \<lparr> PollingInterval = 30000 * Millisecond \<rparr>"

definition deps_ok :: "(unit, slice) deps" where
  "deps_ok =
     \<lparr> Adapt = (\<lambda>cf. (cf, [], None)),
       json_Unmarshal = (\<lambda>b. Inr \<lparr> Admin = None, ConfigOther = b \<rparr>),
       json_Marshal = (\<lambda>c. Inr (Some ((case Admin c of None \<Rightarrow> [] | Some a \<Rightarrow> map of_char (Listen a))
                                   @ slice_bytes (ConfigOther c)))),
       zeroAdminOther = (),
       NewRequest_error = (\<lambda>m url. None),
       Do = (\<lambda>req. Inr \<lparr> StatusCode = 200, ReadAll = Inr None \<rparr>) \<rparr>"

definition deps_bad_caddyfile :: "(unit, slice) deps" where
  "deps_bad_caddyfile = deps_ok\<lparr> Adapt := (\<lambda>cf. (None, [], Some ''adapt failed'')) \<rparr>"

definition deps_500 :: "(unit, slice) deps" where
  "deps_500 = deps_ok\<lparr> Do := (\<lambda>req. Inr \<lparr> StatusCode = 500, ReadAll = Inr None \<rparr>) \<rparr>"

definition container_start :: event where
  "container_start = \<lparr> Type = ''container'', Action = ''start'' \<rparr>"

text \<open>
  Schedules. \<open>sys0\<close> is a fresh loader with no call started. In \<open>race_schedule\<close> two
  runs of \<open>update\<close> get the same generator output for the one server 10.0.0.1 and start
  a call of \<open>updateServer\<close> each (calls 0 and 1); the two calls then step in turn, up to
  the point where each waits for its response. \<open>regress_schedule\<close> goes on: call 1
  gets its response and returns; a third \<open>update\<close> sees a changed output and starts
  call 2, which runs from entry to return; \<open>late_response\<close> is call 0 receiving its
  response after that.
\<close>

definition sys0 :: system where
  "sys0 = \<lparr> loader = CreateDockerLoader opts0, tasks = [] \<rparr>"

definition race_schedule :: "move list" where
  "race_schedule =
     [Rebuild (Some [97], [''10.0.0.1'']), Rebuild (Some [97], [''10.0.0.1'']),
      Move 0, Move 1, Move 0, Move 1, Move 0, Move 1, Move 0, Move 1, Move 0, Move 1]"

definition regress_schedule :: "move list" where
  "regress_schedule =
     race_schedule @
     [Move 1, Move 1, Move 1, Rebuild (Some [98], [''10.0.0.1'']),
      Move 2, Move 2, Move 2, Move 2, Move 2, Move 2, Move 2, Move 2]"

definition late_response :: "move list" where
  "late_response = [Move 0, Move 0, Move 0]"

text \<open>
  Two overlapping rebuilds. The timer fires twice and the generator answers both runs
  with the same Caddyfile and server. Each run gets as far as the comparison of line 164
  before either reaches the assignment of line 166; then run 0 goes on to its return,
  and after it run 1.
\<close>

definition overlap_schedule :: "rebuild_move list" where
  "overlap_schedule =
     [Fire (Some [97], [''10.0.0.1'']), Advance 0, Advance 0, Advance 0, Advance 0,
      Fire (Some [97], [''10.0.0.1'']), Advance 1, Advance 1, Advance 1, Advance 1,
      Advance 0, Advance 0, Advance 0, Advance 0, Advance 0,
      Advance 1, Advance 1, Advance 1, Advance 1, Advance 1]"

text \<open>
  Collaborators whose configuration has an admin section with one more field than the
  listen address, a boolean with zero value false (as \<open>disabled\<close> is in Caddy):
  the stored JSON unmarshals to an admin section that listens on localhost:2019 and has
  the field set; \<open>json.Marshal\<close> writes the listen address, then the field as one byte,
  then the other fields.
\<close>

definition deps_admin :: "(bool, slice) deps" where
  "deps_admin =
     \<lparr> Adapt = (\<lambda>cf. (cf, [], None)),
       json_Unmarshal = (\<lambda>b. Inr \<lparr> Admin = Some \<lparr> Listen = ''localhost:2019'', AdminOther = True \<rparr>,
                                   ConfigOther = b \<rparr>),
       json_Marshal = (\<lambda>c. Inr (Some ((case Admin c of None \<Rightarrow> []
                                        | Some a \<Rightarrow> map of_char (Listen a)
                                            @ [if AdminOther a then 1 else 0])
                                   @ slice_bytes (ConfigOther c)))),
       zeroAdminOther = False,
       NewRequest_error = (\<lambda>m url. None),
       Do = (\<lambda>req. Inr \<lparr> StatusCode = 200, ReadAll = Inr None \<rparr>) \<rparr>"

section \<open>Frame and effect lemmas\<close>

lemma emit_fields [simp]:
  "effects (emit e s) = effects s @ [e]"
  "options (emit e s) = options s"
  "timer (emit e s) = timer s"
  "skipEvents (emit e s) = skipEvents s"
  "lastCaddyfile (emit e s) = lastCaddyfile s"
  "lastJSONConfig (emit e s) = lastJSONConfig s"
  "lastVersion (emit e s) = lastVersion s"
  "serversVersions (emit e s) = serversVersions s"
  "serversUpdating (emit e s) = serversUpdating s"
  by (simp_all add: emit_def)

lemma timer_Reset_fields [simp]:
  "effects (timer_Reset dl s) = effects s @ [TimerReset dl]"
  "options (timer_Reset dl s) = options s"
  "timer (timer_Reset dl s) = Some dl"
  "skipEvents (timer_Reset dl s) = skipEvents s"
  "lastCaddyfile (timer_Reset dl s) = lastCaddyfile s"
  "lastJSONConfig (timer_Reset dl s) = lastJSONConfig s"
  "lastVersion (timer_Reset dl s) = lastVersion s"
  "serversVersions (timer_Reset dl s) = serversVersions s"
  "serversUpdating (timer_Reset dl s) = serversUpdating s"
  by (simp_all add: timer_Reset_def)

lemma set_skipEvents_fields [simp]:
  "effects (set_skipEvents b s) = effects s @ [SetSkipEvents b]"
  "options (set_skipEvents b s) = options s"
  "timer (set_skipEvents b s) = timer s"
  "skipEvents (set_skipEvents b s) = b"
  "lastCaddyfile (set_skipEvents b s) = lastCaddyfile s"
  "lastJSONConfig (set_skipEvents b s) = lastJSONConfig s"
  "lastVersion (set_skipEvents b s) = lastVersion s"
  "serversVersions (set_skipEvents b s) = serversVersions s"
  "serversUpdating (set_skipEvents b s) = serversUpdating s"
  by (simp_all add: set_skipEvents_def)

lemma pushConfig_frame [simp]:
  "options (pushConfig d server v s) = options s"
  "timer (pushConfig d server v s) = timer s"
  "skipEvents (pushConfig d server v s) = skipEvents s"
  "lastCaddyfile (pushConfig d server v s) = lastCaddyfile s"
  "lastJSONConfig (pushConfig d server v s) = lastJSONConfig s"
  "lastVersion (pushConfig d server v s) = lastVersion s"
  "serversUpdating (pushConfig d server v s) = serversUpdating s"
  by (simp_all add: pushConfig_def Let_def split: sum.splits)

lemma updateServer_frame [simp]:
  "options (updateServer d server s) = options s"
  "timer (updateServer d server s) = timer s"
  "skipEvents (updateServer d server s) = skipEvents s"
  "lastCaddyfile (updateServer d server s) = lastCaddyfile s"
  "lastJSONConfig (updateServer d server s) = lastJSONConfig s"
  "lastVersion (updateServer d server s) = lastVersion s"
  by (simp_all add: updateServer_def Let_def)

lemma pushes_frame [simp]:
  "options (foldl (\<lambda>st server. updateServer d server st) s srvs) = options s"
  "timer (foldl (\<lambda>st server. updateServer d server st) s srvs) = timer s"
  "skipEvents (foldl (\<lambda>st server. updateServer d server st) s srvs) = skipEvents s"
  "lastCaddyfile (foldl (\<lambda>st server. updateServer d server st) s srvs) = lastCaddyfile s"
  "lastJSONConfig (foldl (\<lambda>st server. updateServer d server st) s srvs) = lastJSONConfig s"
  "lastVersion (foldl (\<lambda>st server. updateServer d server st) s srvs) = lastVersion s"
  by (induction srvs arbitrary: s) simp_all

lemma pushConfig_effects:
  "\<exists>es. effects (pushConfig d server v s) = effects s @ es \<and> filter is_CallAdapt es = []
        \<and> filter is_rearm es = [] \<and> CallGenerate \<notin> set es"
  by (auto simp add: pushConfig_def Let_def split: sum.splits)

lemma updateServer_effects:
  "\<exists>es. effects (updateServer d server s) = effects s @ es \<and> filter is_CallAdapt es = []
        \<and> filter is_rearm es = [] \<and> CallGenerate \<notin> set es"
proof -
  obtain es where es: "effects (pushConfig d server (lastVersion s)
      (emit (UpdatingSet server True) (s\<lparr>serversUpdating := Bool_Set (serversUpdating s) server True\<rparr>)))
     = (effects s @ [UpdatingSet server True]) @ es" "filter is_CallAdapt es = []"
     "filter is_rearm es = []" "CallGenerate \<notin> set es"
    using pushConfig_effects[of d server "lastVersion s"
       "emit (UpdatingSet server True) (s\<lparr>serversUpdating := Bool_Set (serversUpdating s) server True\<rparr>)"]
    by auto
  show ?thesis
    using es by (auto simp add: updateServer_def Let_def)
qed

lemma pushes_effects:
  "\<exists>es. effects (foldl (\<lambda>st server. updateServer d server st) s srvs) = effects s @ es
        \<and> filter is_CallAdapt es = [] \<and> filter is_rearm es = [] \<and> CallGenerate \<notin> set es"
proof (induction srvs arbitrary: s)
  case Nil
  then show ?case by simp
next
  case (Cons a srvs)
  obtain es1 where 1: "effects (updateServer d a s) = effects s @ es1" "filter is_CallAdapt es1 = []"
      "filter is_rearm es1 = []" "CallGenerate \<notin> set es1"
    using updateServer_effects by blast
  obtain es2 where 2: "effects (foldl (\<lambda>st server. updateServer d server st) (updateServer d a s) srvs)
       = effects (updateServer d a s) @ es2" "filter is_CallAdapt es2 = []"
       "filter is_rearm es2 = []" "CallGenerate \<notin> set es2"
    using Cons.IH by blast
  show ?case using 1 2 by auto
qed


lemma update_unchanged:
  assumes "bytes_Equal (lastCaddyfile s) cf"
  shows "fst (update d (cf, srvs) s)"
    and "lastVersion (snd (update d (cf, srvs) s)) = lastVersion s"
    and "lastJSONConfig (snd (update d (cf, srvs) s)) = lastJSONConfig s"
    and "filter is_CallAdapt (new_effects s (snd (update d (cf, srvs) s))) = []"
proof -
  let ?s4 = "(emit CallGenerate (set_skipEvents False (timer_Reset (PollingInterval (options s)) s)))
      \<lparr>lastCaddyfile := cf\<rparr>"
  have u: "update d (cf, srvs) s = (True, foldl (\<lambda>st server. updateServer d server st) ?s4 srvs)"
    using assms by (simp add: update_def Let_def)
  obtain es where es: "effects (foldl (\<lambda>st server. updateServer d server st) ?s4 srvs) = effects ?s4 @ es"
     "filter is_CallAdapt es = []"
    using pushes_effects by blast
  show "fst (update d (cf, srvs) s)" by (simp add: u)
  show "lastVersion (snd (update d (cf, srvs) s)) = lastVersion s" by (simp add: u)
  show "lastJSONConfig (snd (update d (cf, srvs) s)) = lastJSONConfig s" by (simp add: u)
  show "filter is_CallAdapt (new_effects s (snd (update d (cf, srvs) s))) = []"
    by (simp add: u es new_effects_def)
qed

lemma update_adapter_error:
  assumes "\<not> bytes_Equal (lastCaddyfile s) cf" and "snd (snd (Adapt d cf)) = Some err"
  shows "update d (cf, srvs) s =
     (False, emit (CallAdapt cf) ((emit CallGenerate (set_skipEvents False
        (timer_Reset (PollingInterval (options s)) s)))\<lparr>lastCaddyfile := cf\<rparr>))"
  using assms by (cases "Adapt d cf") (simp add: update_def Let_def)

lemma update_changed_calls_adapter:
  assumes "\<not> bytes_Equal (lastCaddyfile s) cf"
  shows "CallAdapt cf \<in> set (new_effects s (snd (update d (cf, srvs) s)))"
proof -
  let ?s5 = "emit (CallAdapt cf) ((emit CallGenerate (set_skipEvents False
        (timer_Reset (PollingInterval (options s)) s)))\<lparr>lastCaddyfile := cf\<rparr>)"
  obtain es where es: "effects (foldl (\<lambda>st server. updateServer d server st)
       (?s5\<lparr>lastJSONConfig := fst (Adapt d cf), lastVersion := lastVersion ?s5 + 1\<rparr>) srvs)
       = effects (?s5\<lparr>lastJSONConfig := fst (Adapt d cf), lastVersion := lastVersion ?s5 + 1\<rparr>) @ es"
    using pushes_effects by blast
  show ?thesis
  proof (cases "snd (snd (Adapt d cf))")
    case None
    then have "update d (cf, srvs) s = (True, foldl (\<lambda>st server. updateServer d server st)
       (?s5\<lparr>lastJSONConfig := fst (Adapt d cf), lastVersion := lastVersion ?s5 + 1\<rparr>) srvs)"
      using assms by (cases "Adapt d cf") (simp add: update_def Let_def)
    then show ?thesis using es by (simp add: new_effects_def)
  next
    case (Some err)
    then show ?thesis
      using update_adapter_error[OF assms Some] by (simp add: new_effects_def)
  qed
qed

lemma update_lastVersion:
  "lastVersion (snd (update d gen s)) =
     (if accepts (TimerFires d gen) s then lastVersion s + 1 else lastVersion s)"
  by (cases gen, cases "Adapt d (fst gen)") (simp add: update_def Let_def)

lemma listenEvents_lastVersion:
  "lastVersion (snd (listenEvents msgs s)) = lastVersion s"
  by (induction msgs s rule: listenEvents.induct) simp_all

lemma step_lastVersion:
  "lastVersion (step a s) = (if accepts a s then lastVersion s + 1 else lastVersion s)"
  by (cases a) (simp_all add: update_lastVersion listenEvents_lastVersion del: listenEvents.simps)

lemma run_Cons: "run (a # acts) s = run acts (step a s)"
  by (simp add: run_def)

lemma run_append: "run (xs @ ys) s = run ys (run xs s)"
  by (simp add: run_def)

lemma accepted_append: "accepted (xs @ ys) s = accepted xs s + accepted ys (run xs s)"
  by (induction xs arbitrary: s) (simp_all add: run_def)

lemma sint_succ_int64:
  fixes w :: int64
  assumes "sint w < 2 ^ 63 - 1"
  shows "sint (w + 1) = sint w + 1"
proof -
  have "- (2 ^ 63) \<le> sint w" using sint_ge[of w] by simp
  then have "signed_take_bit 63 (sint w + 1) = sint w + 1"
    using assms by (intro signed_take_bit_int_eq_self) simp_all
  then show ?thesis by (simp add: sint_word_ariths)
qed

lemma run_counts:
  "sint (lastVersion s) + int (accepted acts s) < 2 ^ 63 \<Longrightarrow>
   sint (lastVersion (run acts s)) = sint (lastVersion s) + int (accepted acts s)"
proof (induction acts arbitrary: s)
  case Nil
  then show ?case by (simp add: run_def)
next
  case (Cons a acts)
  show ?case
  proof (cases "accepts a s")
    case True
    then have lt: "sint (lastVersion s) < 2 ^ 63 - 1" using Cons.prems by simp
    have v: "sint (lastVersion (step a s)) = sint (lastVersion s) + 1"
      using True lt by (simp add: step_lastVersion sint_succ_int64)
    then have "sint (lastVersion (step a s)) + int (accepted acts (step a s)) < 2 ^ 63"
      using Cons.prems True by simp
    from Cons.IH[OF this] show ?thesis using v True by (simp add: run_Cons)
  next
    case False
    then have v: "lastVersion (step a s) = lastVersion s" by (simp add: step_lastVersion)
    then have "sint (lastVersion (step a s)) + int (accepted acts (step a s)) < 2 ^ 63"
      using Cons.prems False by simp
    from Cons.IH[OF this] show ?thesis using v False by (simp add: run_Cons)
  qed
qed

lemmas eval_defs =
  update_def updateServer_def pushConfig_def pushRequest_def addAdminListen_def
  http_NewRequest_def Header_Set_def Let_def CreateDockerLoader_def bytes_Equal_def
  slice_bytes_def deps_ok_def opts0_def new_effects_def
  newStringBoolCMap_def newStringInt64CMap_def Bool_Get_def Bool_Set_def Bool_Delete_def
  Int64_Get_def Int64_Set_def emit_def timer_Reset_def set_skipEvents_def run_def
  event_update_def Millisecond_def

lemmas sched_defs =
  exec_def sys_step_def push_step_def new_task_def

section \<open>Rebuilds\<close>



text \<open>
  Claim C1, as the code has it. If the output differs from the previous one and the
  adapter returns an error, \<open>update\<close> returns false, leaves \<open>lastVersion\<close>,
  \<open>lastJSONConfig\<close> and every server's applied version as they were, and starts no push:
  after the generator and the adapter nothing else is called. The refused text has
  nevertheless been stored as \<open>lastCaddyfile\<close> (line 166 runs before the adapter).
  So the next rebuild, if its output is byte-identical to the refused one, takes the
  unchanged branch: it does not call the adapter, keeps version and JSON, and returns
  true. The adapter is called again once the output differs from the refused text.
\<close>

theorem C1_adapter_error_aborts_and_is_not_retried:
  assumes "\<not> bytes_Equal (lastCaddyfile s) cf"
    and "snd (snd (Adapt d cf)) = Some err"
  shows "\<not> fst (update d (cf, srvs) s) \<and>
         lastVersion (snd (update d (cf, srvs) s)) = lastVersion s \<and>
         lastJSONConfig (snd (update d (cf, srvs) s)) = lastJSONConfig s \<and>
         serversVersions (snd (update d (cf, srvs) s)) = serversVersions s \<and>
         lastCaddyfile (snd (update d (cf, srvs) s)) = cf \<and>
         new_effects s (snd (update d (cf, srvs) s))
           = [TimerReset (PollingInterval (options s)), SetSkipEvents False, CallGenerate,
              CallAdapt cf] \<and>
         (if bytes_Equal cf cf'
          then fst (update d' (cf', srvs') (snd (update d (cf, srvs) s))) \<and>
               filter is_CallAdapt (new_effects (snd (update d (cf, srvs) s))
                  (snd (update d' (cf', srvs') (snd (update d (cf, srvs) s))))) = [] \<and>
               lastVersion (snd (update d' (cf', srvs') (snd (update d (cf, srvs) s))))
                 = lastVersion s \<and>
               lastJSONConfig (snd (update d' (cf', srvs') (snd (update d (cf, srvs) s))))
                 = lastJSONConfig s
          else CallAdapt cf' \<in> set (new_effects (snd (update d (cf, srvs) s))
                  (snd (update d' (cf', srvs') (snd (update d (cf, srvs) s))))))"
proof -
  let ?s1 = "snd (update d (cf, srvs) s)"
  note u = update_adapter_error[OF assms, of srvs]
  have a: "\<not> fst (update d (cf, srvs) s)" "lastVersion ?s1 = lastVersion s"
    "lastJSONConfig ?s1 = lastJSONConfig s" "serversVersions ?s1 = serversVersions s"
    "lastCaddyfile ?s1 = cf"
    by (simp_all add: u)
  have e: "new_effects s ?s1 = [TimerReset (PollingInterval (options s)), SetSkipEvents False,
      CallGenerate, CallAdapt cf]"
    by (simp add: u new_effects_def)
  have n: "bytes_Equal cf cf' \<Longrightarrow>
      fst (update d' (cf', srvs') ?s1) \<and>
      filter is_CallAdapt (new_effects ?s1 (snd (update d' (cf', srvs') ?s1))) = [] \<and>
      lastVersion (snd (update d' (cf', srvs') ?s1)) = lastVersion s \<and>
      lastJSONConfig (snd (update d' (cf', srvs') ?s1)) = lastJSONConfig s"
    using update_unchanged[of ?s1 cf' d' srvs'] a by simp
  have r: "\<not> bytes_Equal cf cf' \<Longrightarrow>
      CallAdapt cf' \<in> set (new_effects ?s1 (snd (update d' (cf', srvs') ?s1)))"
    using update_changed_calls_adapter[of ?s1 cf' d' srvs'] a by simp
  show ?thesis
    using a e n r by simp
qed

text \<open>
  The claim as stated says that a later rebuild with the same output retries the
  adaptation. From a fresh loader, with an adapter that refuses the Caddyfile: the first
  rebuild fails, the second one, on the same output, succeeds, and all it does is re-arm
  the timer, clear the flag, ask the generator and run one skipped push.
\<close>

theorem C1_counterexample:
  "\<not> fst (update deps_bad_caddyfile (Some [97], [''10.0.0.1'']) (CreateDockerLoader opts0)) \<and>
   fst (update deps_bad_caddyfile (Some [97], [''10.0.0.1''])
          (snd (update deps_bad_caddyfile (Some [97], [''10.0.0.1'']) (CreateDockerLoader opts0)))) \<and>
   new_effects (snd (update deps_bad_caddyfile (Some [97], [''10.0.0.1'']) (CreateDockerLoader opts0)))
     (snd (update deps_bad_caddyfile (Some [97], [''10.0.0.1''])
          (snd (update deps_bad_caddyfile (Some [97], [''10.0.0.1'']) (CreateDockerLoader opts0)))))
   = [TimerReset (30000 * Millisecond), SetSkipEvents False, CallGenerate,
      UpdatingSet ''10.0.0.1'' True, UpdatingDelete ''10.0.0.1'']"
  by (simp add: update_def updateServer_def Let_def CreateDockerLoader_def bytes_Equal_def
      slice_bytes_def deps_bad_caddyfile_def deps_ok_def opts0_def new_effects_def
      newStringBoolCMap_def newStringInt64CMap_def Bool_Get_def Bool_Set_def Bool_Delete_def
      Int64_Get_def emit_def timer_Reset_def set_skipEvents_def)

theorem C1_witness:
  "\<not> bytes_Equal (lastCaddyfile (CreateDockerLoader opts0)) (Some [97]) \<and>
   snd (snd (Adapt deps_bad_caddyfile (Some [97]))) = Some ''adapt failed'' \<and>
   \<not> fst (update deps_bad_caddyfile (Some [97], [''10.0.0.1'']) (CreateDockerLoader opts0)) \<and>
   lastVersion (snd (update deps_bad_caddyfile (Some [97], [''10.0.0.1''])
      (CreateDockerLoader opts0))) = 0 \<and>
   CallAdapt (Some [98]) \<in> set (new_effects
      (snd (update deps_bad_caddyfile (Some [97], [''10.0.0.1'']) (CreateDockerLoader opts0)))
      (snd (update deps_ok (Some [98], [''10.0.0.1''])
         (snd (update deps_bad_caddyfile (Some [97], [''10.0.0.1''])
            (CreateDockerLoader opts0))))))"
proof -
  have h1: "\<not> bytes_Equal (lastCaddyfile (CreateDockerLoader opts0)) (Some [97])"
    by (simp add: CreateDockerLoader_def bytes_Equal_def slice_bytes_def)
  have h2: "snd (snd (Adapt deps_bad_caddyfile (Some [97]))) = Some ''adapt failed''"
    by (simp add: deps_bad_caddyfile_def deps_ok_def)
  have ne: "\<not> bytes_Equal (Some [97]) (Some [98::byte])"
    by (simp add: bytes_Equal_def slice_bytes_def)
  have v0: "lastVersion (CreateDockerLoader opts0) = 0"
    by (simp add: CreateDockerLoader_def)
  show ?thesis
    using h1 h2 ne v0
      C1_adapter_error_aborts_and_is_not_retried [OF h1 h2, of "[''10.0.0.1'']" "Some [98]"
        deps_ok "[''10.0.0.1'']"]
    by simp
qed

lemma version_counts:
  assumes "accepted (pre @ a # post) (CreateDockerLoader opts) < 2 ^ 63"
  shows "lastVersion (CreateDockerLoader opts) = 0 \<and>
         lastVersion (step a (run pre (CreateDockerLoader opts)))
           = lastVersion (run pre (CreateDockerLoader opts))
             + (if accepts a (run pre (CreateDockerLoader opts)) then 1 else 0) \<and>
         sint (lastVersion (step a (run pre (CreateDockerLoader opts))))
           = sint (lastVersion (run pre (CreateDockerLoader opts)))
             + (if accepts a (run pre (CreateDockerLoader opts)) then 1 else 0) \<and>
         sint (lastVersion (run pre (CreateDockerLoader opts)))
           = int (accepted pre (CreateDockerLoader opts)) \<and>
         sint (lastVersion (run (pre @ a # post) (CreateDockerLoader opts)))
           = int (accepted (pre @ a # post) (CreateDockerLoader opts)) \<and>
         sint (lastVersion (run pre (CreateDockerLoader opts)))
           \<le> sint (lastVersion (run (pre @ a # post) (CreateDockerLoader opts)))"
proof -
  let ?s0 = "CreateDockerLoader opts"
  have z: "lastVersion ?s0 = 0" by (simp add: CreateDockerLoader_def)
  have split: "accepted (pre @ a # post) ?s0
      = accepted pre ?s0 + ((if accepts a (run pre ?s0) then 1 else 0)
          + accepted post (step a (run pre ?s0)))"
    by (simp add: accepted_append)
  have all: "sint (lastVersion (run (pre @ a # post) ?s0)) = int (accepted (pre @ a # post) ?s0)"
    using run_counts[of ?s0 "pre @ a # post"] assms z by simp
  have b1: "sint (lastVersion ?s0) + int (accepted pre ?s0) < 2 ^ 63"
    using assms split z by simp
  have p: "sint (lastVersion (run pre ?s0)) = int (accepted pre ?s0)"
    using run_counts[OF b1] z by simp
  have b2: "sint (lastVersion ?s0) + int (accepted (pre @ [a]) ?s0) < 2 ^ 63"
    using assms split z by (simp add: accepted_append)
  have q: "sint (lastVersion (run (pre @ [a]) ?s0)) = int (accepted (pre @ [a]) ?s0)"
    using run_counts[OF b2] z by simp
  have q': "sint (lastVersion (step a (run pre ?s0)))
      = sint (lastVersion (run pre ?s0)) + (if accepts a (run pre ?s0) then 1 else 0)"
    using q p by (simp add: run_append run_Cons accepted_append) (simp add: run_def)
  have w: "lastVersion (step a (run pre ?s0))
      = lastVersion (run pre ?s0) + (if accepts a (run pre ?s0) then 1 else 0)"
    by (simp add: step_lastVersion)
  have mono: "sint (lastVersion (run pre ?s0)) \<le> sint (lastVersion (run (pre @ a # post) ?s0))"
    using all p split by simp
  show ?thesis using z w q' p all mono by blast
qed

text \<open>
  Claim C3, as the code has it. \<open>lastVersion\<close> of a fresh loader is 0. Along every run
  from a fresh loader in which the rebuilds happen one after the other, no run of
  \<open>update\<close> overlapping another (with any outputs and any collaborators, and any number
  of events between them), a step adds exactly 1 to \<open>lastVersion\<close> when it is a rebuild
  whose output differs from the previous one and which the adapter accepts, and leaves
  it unchanged otherwise; an event never changes it. So the version, read as Go reads an
  \<open>int64\<close>, equals the number of accepted changes so far: it never decreases, and each
  accepted change gets a value no earlier state had. \<open>lastVersion\<close> is an \<open>int64\<close>; the
  reading as a number holds for runs with fewer than \<open>2 ^ 63\<close> accepted changes, the
  addition of 1 as a 64-bit word holds without that bound.
\<close>

theorem C3_version_counts_accepted_changes:
  "lastVersion (CreateDockerLoader opts) = 0 \<and>
   lastVersion (step a (run pre (CreateDockerLoader opts)))
     = lastVersion (run pre (CreateDockerLoader opts))
       + (if accepts a (run pre (CreateDockerLoader opts)) then 1 else 0) \<and>
   (accepted (pre @ a # post) (CreateDockerLoader opts) < 2 ^ 63 \<longrightarrow>
      sint (lastVersion (step a (run pre (CreateDockerLoader opts))))
        = sint (lastVersion (run pre (CreateDockerLoader opts)))
          + (if accepts a (run pre (CreateDockerLoader opts)) then 1 else 0) \<and>
      sint (lastVersion (run pre (CreateDockerLoader opts)))
        = int (accepted pre (CreateDockerLoader opts)) \<and>
      sint (lastVersion (run (pre @ a # post) (CreateDockerLoader opts)))
        = int (accepted (pre @ a # post) (CreateDockerLoader opts)) \<and>
      sint (lastVersion (run pre (CreateDockerLoader opts)))
        \<le> sint (lastVersion (run (pre @ a # post) (CreateDockerLoader opts))))"
proof -
  have z: "lastVersion (CreateDockerLoader opts) = 0"
    by (simp add: CreateDockerLoader_def)
  have w: "lastVersion (step a (run pre (CreateDockerLoader opts)))
     = lastVersion (run pre (CreateDockerLoader opts))
       + (if accepts a (run pre (CreateDockerLoader opts)) then 1 else 0)"
    by (simp add: step_lastVersion)
  show ?thesis
    using z w version_counts[of pre a post opts] by blast
qed

theorem C3_witness:
  "accepted
      ([TimerFires deps_ok (Some [97], [''10.0.0.1'']), EventArrives container_start,
        EventArrives container_start]
       @ TimerFires deps_ok (Some [98], [''10.0.0.1''])
       # [TimerFires deps_ok (Some [98], [''10.0.0.1''])])
      (CreateDockerLoader opts0) < 2 ^ 63 \<and>
   sint (lastVersion (run
      ([TimerFires deps_ok (Some [97], [''10.0.0.1'']), EventArrives container_start,
        EventArrives container_start]
       @ TimerFires deps_ok (Some [98], [''10.0.0.1''])
       # [TimerFires deps_ok (Some [98], [''10.0.0.1''])])
      (CreateDockerLoader opts0))) = 2"
proof -
  have n: "accepted
      ([TimerFires deps_ok (Some [97], [''10.0.0.1'']), EventArrives container_start,
        EventArrives container_start]
       @ TimerFires deps_ok (Some [98], [''10.0.0.1''])
       # [TimerFires deps_ok (Some [98], [''10.0.0.1''])])
      (CreateDockerLoader opts0) = 2"
    by (simp add: eval_defs container_start_def)
  then have h: "accepted
      ([TimerFires deps_ok (Some [97], [''10.0.0.1'']), EventArrives container_start,
        EventArrives container_start]
       @ TimerFires deps_ok (Some [98], [''10.0.0.1''])
       # [TimerFires deps_ok (Some [98], [''10.0.0.1''])])
      (CreateDockerLoader opts0) < 2 ^ 63"
    by simp
  have "sint (lastVersion (run
      ([TimerFires deps_ok (Some [97], [''10.0.0.1'']), EventArrives container_start,
        EventArrives container_start]
       @ TimerFires deps_ok (Some [98], [''10.0.0.1''])
       # [TimerFires deps_ok (Some [98], [''10.0.0.1''])])
      (CreateDockerLoader opts0)))
    = int (accepted
      ([TimerFires deps_ok (Some [97], [''10.0.0.1'']), EventArrives container_start,
        EventArrives container_start]
       @ TimerFires deps_ok (Some [98], [''10.0.0.1''])
       # [TimerFires deps_ok (Some [98], [''10.0.0.1''])])
      (CreateDockerLoader opts0))"
    using h C3_version_counts_accepted_changes [where opts = opts0
        and pre = "[TimerFires deps_ok (Some [97], [''10.0.0.1'']), EventArrives container_start,
          EventArrives container_start]"
        and a = "TimerFires deps_ok (Some [98], [''10.0.0.1''])"
        and post = "[TimerFires deps_ok (Some [98], [''10.0.0.1''])]"]
    by blast
  then show ?thesis
    using h by (simp only: n) simp
qed

text \<open>
  The steps of \<open>update\<close>, taken by one run alone, are the function \<open>update\<close>.
\<close>

lemmas rebuild_defs =
  rebuild_exec_def rebuild_step_def update_step_def new_update_def

lemma update_is_uninterrupted_run:
  "rebuild_exec d (replicate 9 (Advance 0)) \<lparr> r_loader = s, r_calls = [new_update gen] \<rparr>
     = \<lparr> r_loader = snd (update d gen s),
         r_calls = [\<lparr> u_gen = gen, u_pc = UpdateReturned (fst (update d gen s)),
                     u_changed = (\<not> bytes_Equal (lastCaddyfile s) (fst gen)),
                     u_configJSON = (if bytes_Equal (lastCaddyfile s) (fst gen) then None
                                     else fst (Adapt d (fst gen))) \<rparr>] \<rparr>"
proof -
  obtain cf srvs where gen: "gen = (cf, srvs)" by (cases gen)
  obtain j w err where ad: "Adapt d cf = (j, w, err)" by (cases "Adapt d cf")
  consider (same) "bytes_Equal (lastCaddyfile s) cf"
    | (bad) "\<not> bytes_Equal (lastCaddyfile s) cf" "err \<noteq> None"
    | (good) "\<not> bytes_Equal (lastCaddyfile s) cf" "err = None"
    by blast
  then show ?thesis
  proof cases
    case same
    then show ?thesis
      by (simp add: rebuild_defs numeral_eq_Suc update_def Let_def gen)
  next
    case bad
    then show ?thesis
      by (simp add: rebuild_defs numeral_eq_Suc update_def Let_def gen ad)
  next
    case good
    then show ?thesis
      by (simp add: rebuild_defs numeral_eq_Suc update_def Let_def gen ad)
  qed
qed

text \<open>
  The claim as stated is about every rebuild, overlapping or not. Nothing serialises the
  runs of \<open>update\<close>, and in \<open>overlap_schedule\<close> two of them get the same output from the
  generator and both
  compare it with the previous Caddyfile (line 164) before either stores it (line 166):
  both find it changed, both call the adapter, and both execute line 187. The output
  changed once and the version goes from 0 to 2. The same two rebuilds one after the
  other leave the version at 1.
\<close>

theorem C3_counterexample:
  "lastVersion (r_loader (rebuild_exec deps_ok overlap_schedule
       \<lparr> r_loader = CreateDockerLoader opts0, r_calls = [] \<rparr>)) = 2 \<and>
   filter is_CallAdapt (effects (r_loader (rebuild_exec deps_ok overlap_schedule
       \<lparr> r_loader = CreateDockerLoader opts0, r_calls = [] \<rparr>)))
     = [CallAdapt (Some [97]), CallAdapt (Some [97])] \<and>
   lastVersion (run [TimerFires deps_ok (Some [97], [''10.0.0.1'']),
                     TimerFires deps_ok (Some [97], [''10.0.0.1''])]
                  (CreateDockerLoader opts0)) = 1"
  by (simp add: overlap_schedule_def rebuild_defs eval_defs)

section \<open>The event loop\<close>

lemma listen_suppressed:
  "skipEvents s \<Longrightarrow> listenEvents (map EventMsg evs) s = (False, s)"
  by (induction evs) simp_all

lemma listen_not_qualifying:
  "\<forall>x\<in>set evs. \<not> event_update x \<Longrightarrow>
   listenEvents (map EventMsg (evs @ rest)) s = listenEvents (map EventMsg rest) s"
  by (induction evs) simp_all

text \<open>
  Claim C7. A debounce window is what the event loop receives between two runs of
  \<open>update\<close>: a list of events, received while nothing else resets the flag. If the flag
  is clear when the window starts, the first qualifying event of the window sets
  \<open>skipEvents\<close> and resets the timer to 100 milliseconds, and that is all the window
  does: the whole burst leaves the loader exactly as that one event alone would, with
  one \<open>timer.Reset\<close> in the record of effects, and every event after it, qualifying or
  not, is discarded without touching timer or flag. The timer has one pending delay, so
  one run of \<open>update\<close> follows.
\<close>

theorem C7_one_arm_per_debounce_window:
  assumes "\<not> skipEvents s"
    and "\<forall>x\<in>set before. \<not> event_update x"
    and "event_update e"
  shows "listenEvents (map EventMsg (before @ e # after)) s
           = (False, s\<lparr>skipEvents := True, timer := Some (100 * Millisecond),
                       effects := effects s @ [SetSkipEvents True, TimerReset (100 * Millisecond)]\<rparr>) \<and>
         listenEvents (map EventMsg (before @ e # after)) s = listenEvents [EventMsg e] s \<and>
         new_effects s (snd (listenEvents (map EventMsg (before @ e # after)) s))
           = [SetSkipEvents True, TimerReset (100 * Millisecond)] \<and>
         listenEvents (map EventMsg after) (snd (listenEvents [EventMsg e] s))
           = (False, snd (listenEvents [EventMsg e] s))"
proof -
  let ?s' = "s\<lparr>skipEvents := True, timer := Some (100 * Millisecond),
               effects := effects s @ [SetSkipEvents True, TimerReset (100 * Millisecond)]\<rparr>"
  have one: "listenEvents [EventMsg e] s = (False, ?s')"
    using assms(1,3) by (simp add: timer_Reset_def set_skipEvents_def emit_def)
  have sup: "skipEvents ?s'" by simp
  have "listenEvents (map EventMsg (before @ e # after)) s
      = listenEvents (map EventMsg (e # after)) s"
    using listen_not_qualifying[OF assms(2)] by blast
  also have "\<dots> = listenEvents (map EventMsg after) ?s'"
    using assms(1,3) by (simp add: timer_Reset_def set_skipEvents_def emit_def)
  also have "\<dots> = (False, ?s')"
    using listen_suppressed[OF sup] by blast
  finally have all: "listenEvents (map EventMsg (before @ e # after)) s = (False, ?s')" .
  have cnt: "new_effects s (snd (listenEvents (map EventMsg (before @ e # after)) s))
      = [SetSkipEvents True, TimerReset (100 * Millisecond)]"
    by (simp only: all snd_conv) (simp add: new_effects_def)
  have after: "listenEvents (map EventMsg after) (snd (listenEvents [EventMsg e] s))
      = (False, snd (listenEvents [EventMsg e] s))"
    using listen_suppressed[OF sup] by (simp only: one snd_conv)
  show ?thesis
    using all one cnt after by simp
qed

theorem C7_witness:
  "\<not> skipEvents (CreateDockerLoader opts0) \<and>
   \<not> event_update \<lparr>Type = ''network'', Action = ''connect''\<rparr> \<and>
   event_update container_start \<and>
   snd (listenEvents (map EventMsg ([\<lparr>Type = ''network'', Action = ''connect''\<rparr>]
          @ container_start # [container_start, \<lparr>Type = ''service'', Action = ''update''\<rparr>]))
        (CreateDockerLoader opts0))
     = (CreateDockerLoader opts0)\<lparr>skipEvents := True, timer := Some (100 * Millisecond),
          effects := [SetSkipEvents True, TimerReset (100 * Millisecond)]\<rparr>"
proof -
  have h1: "\<not> skipEvents (CreateDockerLoader opts0)" by (simp add: CreateDockerLoader_def)
  have h2: "\<forall>x\<in>set [\<lparr>Type = ''network'', Action = ''connect''\<rparr>]. \<not> event_update x"
    by (simp add: event_update_def)
  have h3: "event_update container_start"
    by (simp add: event_update_def container_start_def)
  have e: "effects (CreateDockerLoader opts0) = []" by (simp add: CreateDockerLoader_def)
  show ?thesis
    using h1 h2 h3 e C7_one_arm_per_debounce_window [OF h1 h2 h3,
        of "[container_start, \<lparr>Type = ''service'', Action = ''update''\<rparr>]"]
    by simp
qed

section \<open>Order of operations in \<open>update\<close>\<close>

lemma update_effects_shape:
  "\<exists>rest. effects (snd (update d gen s))
       = effects s @ TimerReset (PollingInterval (options s)) # SetSkipEvents False
           # CallGenerate # rest
     \<and> filter is_rearm rest = [] \<and> CallGenerate \<notin> set rest"
proof -
  obtain cf srvs where gen: "gen = (cf, srvs)" by (cases gen)
  obtain j w err where ad: "Adapt d cf = (j, w, err)" by (cases "Adapt d cf")
  let ?s4 = "(emit CallGenerate (set_skipEvents False
        (timer_Reset (PollingInterval (options s)) s)))\<lparr>lastCaddyfile := cf\<rparr>"
  let ?s6 = "(emit (CallAdapt cf) ?s4)\<lparr>lastJSONConfig := j,
        lastVersion := lastVersion (emit (CallAdapt cf) ?s4) + 1\<rparr>"
  obtain es4 where es4: "effects (foldl (\<lambda>st server. updateServer d server st) ?s4 srvs)
      = effects ?s4 @ es4" "filter is_rearm es4 = []" "CallGenerate \<notin> set es4"
    using pushes_effects by blast
  obtain es6 where es6: "effects (foldl (\<lambda>st server. updateServer d server st) ?s6 srvs)
      = effects ?s6 @ es6" "filter is_rearm es6 = []" "CallGenerate \<notin> set es6"
    using pushes_effects by blast
  consider (same) "bytes_Equal (lastCaddyfile s) cf"
    | (bad) "\<not> bytes_Equal (lastCaddyfile s) cf" "err \<noteq> None"
    | (good) "\<not> bytes_Equal (lastCaddyfile s) cf" "err = None"
    by blast
  then show ?thesis
  proof cases
    case same
    then have "update d gen s = (True, foldl (\<lambda>st server. updateServer d server st) ?s4 srvs)"
      by (simp add: update_def Let_def gen)
    then show ?thesis using es4 by simp
  next
    case bad
    then have "update d gen s = (False, emit (CallAdapt cf) ?s4)"
      by (simp add: update_def Let_def gen ad)
    then show ?thesis by simp
  next
    case good
    then have "update d gen s = (True, foldl (\<lambda>st server. updateServer d server st) ?s6 srvs)"
      by (simp add: update_def Let_def gen ad)
    then show ?thesis using es6 by simp
  qed
qed

lemma update_timer_flag:
  "timer (snd (update d gen s)) = Some (PollingInterval (options s)) \<and>
   \<not> skipEvents (snd (update d gen s))"
  by (cases gen, cases "Adapt d (fst gen)") (simp add: update_def Let_def)

text \<open>
  Claim C8, as the code has it. Each run of \<open>update\<close> first resets the timer to the
  polling interval (line 159), then clears \<open>skipEvents\<close> (line 160), and only then
  calls the generator and does the rest of the rebuild (adaptation, pushes), during
  which it neither resets the timer nor writes the flag again. On return the timer is
  armed with the polling interval and the flag is clear.
\<close>

theorem C8_rearm_and_clear_before_rebuild:
  "\<exists>rest. new_effects s (snd (update d gen s))
       = TimerReset (PollingInterval (options s)) # SetSkipEvents False # CallGenerate # rest
     \<and> filter is_rearm rest = [] \<and> CallGenerate \<notin> set rest
     \<and> timer (snd (update d gen s)) = Some (PollingInterval (options s))
     \<and> \<not> skipEvents (snd (update d gen s))"
proof -
  obtain rest where r: "effects (snd (update d gen s))
       = effects s @ TimerReset (PollingInterval (options s)) # SetSkipEvents False
           # CallGenerate # rest" "filter is_rearm rest = []" "CallGenerate \<notin> set rest"
    using update_effects_shape by blast
  have "new_effects s (snd (update d gen s))
       = TimerReset (PollingInterval (options s)) # SetSkipEvents False # CallGenerate # rest"
    by (simp add: new_effects_def r(1))
  then show ?thesis using r(2,3) update_timer_flag by blast
qed

theorem C8_witness:
  "take 3 (new_effects (CreateDockerLoader opts0)
      (snd (update deps_ok (Some [97], [''10.0.0.1'']) (CreateDockerLoader opts0))))
   = [TimerReset (30000 * Millisecond), SetSkipEvents False, CallGenerate]"
proof -
  have o: "PollingInterval (options (CreateDockerLoader opts0)) = 30000 * Millisecond"
    by (simp add: CreateDockerLoader_def opts0_def)
  show ?thesis
    using C8_rearm_and_clear_before_rebuild [of "CreateDockerLoader opts0" deps_ok
        "(Some [97], [''10.0.0.1''])"] o
    by auto
qed

text \<open>
  The claim as stated puts the rebuild first and the clearing and re-arming after it.
  After one qualifying event on a fresh loader the timer fires: what \<open>update\<close> does, in
  order, starts with the reset and the clearing, and nothing after the generator call
  is a reset or a write of the flag.
\<close>

theorem C8_counterexample:
  "new_effects (snd (listenEvents [EventMsg container_start] (CreateDockerLoader opts0)))
     (snd (update deps_ok (Some [97], [''10.0.0.1''])
        (snd (listenEvents [EventMsg container_start] (CreateDockerLoader opts0)))))
   = [TimerReset (30000 * Millisecond), SetSkipEvents False, CallGenerate,
      CallAdapt (Some [97]), UpdatingSet ''10.0.0.1'' True,
      CallDo \<lparr>Method = ''POST'', URL = ''http://10.0.0.1:2019/load'',
              Header = [(''Content-Type'', ''application/json'')],
              Body = Some (map of_char ''tcp/10.0.0.1:2019'' @ [97])\<rparr>,
      VersionsSet ''10.0.0.1'' 1, UpdatingDelete ''10.0.0.1''] \<and>
   filter is_rearm (dropWhile (\<lambda>e. e \<noteq> CallGenerate)
     (new_effects (snd (listenEvents [EventMsg container_start] (CreateDockerLoader opts0)))
        (snd (update deps_ok (Some [97], [''10.0.0.1''])
           (snd (listenEvents [EventMsg container_start] (CreateDockerLoader opts0))))))) = []"
  by (simp add: eval_defs container_start_def)

section \<open>Empty generator output\<close>

lemma updateServer_at_version_0:
  assumes "lastVersion s = 0" and "serversVersions s = Map.empty"
  shows "serversVersions (updateServer d server s) = Map.empty \<and>
         filter is_CallDo (effects (updateServer d server s)) = filter is_CallDo (effects s) \<and>
         filter is_CallAdapt (effects (updateServer d server s)) = filter is_CallAdapt (effects s)"
  using assms by (simp add: updateServer_def Let_def Int64_Get_def)

lemma pushes_at_version_0:
  assumes "lastVersion s = 0" and "serversVersions s = Map.empty"
  shows "serversVersions (foldl (\<lambda>st server. updateServer d server st) s srvs) = Map.empty \<and>
         filter is_CallDo (effects (foldl (\<lambda>st server. updateServer d server st) s srvs))
           = filter is_CallDo (effects s) \<and>
         filter is_CallAdapt (effects (foldl (\<lambda>st server. updateServer d server st) s srvs))
           = filter is_CallAdapt (effects s)"
  using assms
proof (induction srvs arbitrary: s)
  case Nil
  then show ?case by simp
next
  case (Cons a srvs)
  have 1: "lastVersion (updateServer d a s) = 0" using Cons.prems by simp
  have 2: "serversVersions (updateServer d a s) = Map.empty"
    using updateServer_at_version_0[OF Cons.prems] by blast
  show ?case
    using Cons.IH[OF 1 2] updateServer_at_version_0[OF Cons.prems, of d a] by simp
qed

lemma update_quiet:
  assumes "quiet s" and "slice_bytes cf = []"
  shows "quiet (snd (update d (cf, srvs) s)) \<and> fst (update d (cf, srvs) s)"
proof -
  let ?s4 = "(emit CallGenerate (set_skipEvents False
        (timer_Reset (PollingInterval (options s)) s)))\<lparr>lastCaddyfile := cf\<rparr>"
  have u: "update d (cf, srvs) s = (True, foldl (\<lambda>st server. updateServer d server st) ?s4 srvs)"
    using assms by (simp add: update_def Let_def quiet_def bytes_Equal_def)
  have a: "lastVersion ?s4 = 0" "serversVersions ?s4 = Map.empty"
    using assms by (simp_all add: quiet_def)
  show ?thesis
    using pushes_at_version_0[OF a, of d srvs] assms by (simp add: u quiet_def)
qed

lemma listenEvents_quiet:
  "quiet s \<Longrightarrow> quiet (snd (listenEvents msgs s))"
  by (induction msgs s rule: listenEvents.induct) (simp_all add: quiet_def)

lemma step_quiet:
  "quiet s \<Longrightarrow> empty_output a \<Longrightarrow> quiet (step a s)"
proof (cases a)
  case (TimerFires d gen)
  assume "quiet s" "empty_output a"
  then show ?thesis
    using update_quiet[of s "fst gen" d "snd gen"] TimerFires by simp
next
  case (EventArrives ev)
  assume "quiet s"
  then show ?thesis using listenEvents_quiet[of s "[EventMsg ev]"] EventArrives
    by (simp only: step.simps)
qed

lemma run_quiet:
  "quiet s \<Longrightarrow> \<forall>a\<in>set acts. empty_output a \<Longrightarrow> quiet (run acts s)"
proof (induction acts arbitrary: s)
  case Nil
  then show ?case by (simp add: run_def)
next
  case (Cons a acts)
  then show ?case using step_quiet[of s a] by (simp add: run_Cons)
qed

text \<open>
  Claim C10. Take a fresh loader and any run in which every rebuild's generator output
  is an empty byte sequence (nil or of length 0), with any server lists, any
  collaborators and any events between the rebuilds. Each such output compares equal to
  the previous Caddyfile, initially nil; the adapter is never called, \<open>lastVersion\<close>
  stays 0, every server's applied version reads 0, and no HTTP request is ever made.
  The next rebuild returns true if its output is empty again, and calls the adapter if
  it is not.
\<close>

theorem C10_empty_output_never_pushes:
  assumes "\<forall>a\<in>set acts. empty_output a"
  shows "lastVersion (run acts (CreateDockerLoader opts)) = 0 \<and>
         filter is_CallAdapt (effects (run acts (CreateDockerLoader opts))) = [] \<and>
         filter is_CallDo (effects (run acts (CreateDockerLoader opts))) = [] \<and>
         Int64_Get (serversVersions (run acts (CreateDockerLoader opts))) server = 0 \<and>
         (if slice_bytes cf = []
          then bytes_Equal (lastCaddyfile (run acts (CreateDockerLoader opts))) cf \<and>
               fst (update d (cf, srvs) (run acts (CreateDockerLoader opts)))
          else CallAdapt cf \<in> set (new_effects (run acts (CreateDockerLoader opts))
                 (snd (update d (cf, srvs) (run acts (CreateDockerLoader opts))))))"
proof -
  let ?s = "run acts (CreateDockerLoader opts)"
  have "quiet (CreateDockerLoader opts)"
    by (simp add: quiet_def CreateDockerLoader_def slice_bytes_def newStringInt64CMap_def)
  then have q: "quiet ?s" using run_quiet assms by blast
  have e: "slice_bytes cf = [] \<Longrightarrow> bytes_Equal (lastCaddyfile ?s) cf \<and> fst (update d (cf, srvs) ?s)"
    using q update_quiet[OF q, of cf d srvs] by (simp add: quiet_def bytes_Equal_def)
  have n: "slice_bytes cf \<noteq> [] \<Longrightarrow>
      CallAdapt cf \<in> set (new_effects ?s (snd (update d (cf, srvs) ?s)))"
    using q update_changed_calls_adapter[of ?s cf d srvs] by (simp add: quiet_def bytes_Equal_def)
  show ?thesis
    using q e n by (simp add: quiet_def Int64_Get_def)
qed

theorem C10_witness:
  "empty_output (TimerFires deps_ok (Some [], [''10.0.0.1'', ''10.0.0.2''])) \<and>
   empty_output (TimerFires deps_ok (None, [''10.0.0.1''])) \<and>
   lastVersion (run [TimerFires deps_ok (Some [], [''10.0.0.1'', ''10.0.0.2'']),
                     TimerFires deps_ok (None, [''10.0.0.1''])] (CreateDockerLoader opts0)) = 0 \<and>
   filter is_CallDo (effects (run [TimerFires deps_ok (Some [], [''10.0.0.1'', ''10.0.0.2'']),
                     TimerFires deps_ok (None, [''10.0.0.1''])] (CreateDockerLoader opts0))) = [] \<and>
   CallAdapt (Some [97]) \<in> set (new_effects
      (run [TimerFires deps_ok (Some [], [''10.0.0.1'', ''10.0.0.2'']),
            TimerFires deps_ok (None, [''10.0.0.1''])] (CreateDockerLoader opts0))
      (snd (update deps_ok (Some [97], [''10.0.0.1''])
         (run [TimerFires deps_ok (Some [], [''10.0.0.1'', ''10.0.0.2'']),
               TimerFires deps_ok (None, [''10.0.0.1''])] (CreateDockerLoader opts0)))))"
proof -
  have h: "\<forall>a\<in>set [TimerFires deps_ok (Some [], [''10.0.0.1'', ''10.0.0.2'']),
                     TimerFires deps_ok (None, [''10.0.0.1''])]. empty_output a"
    by (simp add: slice_bytes_def)
  have ne: "slice_bytes (Some [97::byte]) \<noteq> []" by (simp add: slice_bytes_def)
  show ?thesis
    using h ne C10_empty_output_never_pushes [OF h, of opts0 "''10.0.0.1''" "Some [97]" deps_ok
        "[''10.0.0.1'']"]
    by simp
qed

section \<open>Pushes\<close>

lemma pushRequest_emit [simp]:
  "pushRequest d server (emit e s) = pushRequest d server s"
  "pushRequest d server (s\<lparr>serversUpdating := u\<rparr>) = pushRequest d server s"
  by (simp_all add: pushRequest_def)

lemma pushConfig_cases:
  "(pushRequest d server s = Inl err \<longrightarrow> pushConfig d server v s = s) \<and>
   (pushRequest d server s = Inr req \<longrightarrow>
      (if \<exists>resp body. Do d req = Inr resp \<and> ReadAll resp = Inr body \<and> StatusCode resp = 200
       then pushConfig d server v s
              = emit (VersionsSet server v)
                  ((emit (CallDo req) s)\<lparr>serversVersions := Int64_Set (serversVersions s) server v\<rparr>)
       else pushConfig d server v s = emit (CallDo req) s))"
  by (auto simp add: pushConfig_def Let_def split: sum.splits)

text \<open>What one call of \<open>updateServer\<close> does, by the path it takes.\<close>

lemma updateServer_paths:
  "(Bool_Get (serversUpdating s) server \<and> new_effects s (updateServer d server s) = [] \<and>
      serversVersions (updateServer d server s) = serversVersions s) \<or>
   (\<not> Bool_Get (serversUpdating s) server \<and>
      sint (lastVersion s) \<le> sint (Int64_Get (serversVersions s) server) \<and>
      new_effects s (updateServer d server s) = [UpdatingSet server True, UpdatingDelete server] \<and>
      serversVersions (updateServer d server s) = serversVersions s) \<or>
   (\<not> Bool_Get (serversUpdating s) server \<and>
      sint (Int64_Get (serversVersions s) server) < sint (lastVersion s) \<and>
      (\<exists>err. pushRequest d server s = Inl err) \<and>
      new_effects s (updateServer d server s) = [UpdatingSet server True, UpdatingDelete server] \<and>
      serversVersions (updateServer d server s) = serversVersions s) \<or>
   (\<not> Bool_Get (serversUpdating s) server \<and>
      sint (Int64_Get (serversVersions s) server) < sint (lastVersion s) \<and>
      (\<exists>req. pushRequest d server s = Inr req \<and>
         \<not> (\<exists>resp body. Do d req = Inr resp \<and> ReadAll resp = Inr body \<and> StatusCode resp = 200) \<and>
         new_effects s (updateServer d server s)
           = [UpdatingSet server True, CallDo req, UpdatingDelete server]) \<and>
      serversVersions (updateServer d server s) = serversVersions s) \<or>
   (\<not> Bool_Get (serversUpdating s) server \<and>
      sint (Int64_Get (serversVersions s) server) < sint (lastVersion s) \<and>
      (\<exists>req. pushRequest d server s = Inr req \<and>
         (\<exists>resp body. Do d req = Inr resp \<and> ReadAll resp = Inr body \<and> StatusCode resp = 200) \<and>
         new_effects s (updateServer d server s)
           = [UpdatingSet server True, CallDo req, VersionsSet server (lastVersion s),
              UpdatingDelete server]) \<and>
      serversVersions (updateServer d server s)
        = Int64_Set (serversVersions s) server (lastVersion s))"
proof -
  let ?s1 = "emit (UpdatingSet server True)
      (s\<lparr>serversUpdating := Bool_Set (serversUpdating s) server True\<rparr>)"
  show ?thesis
  proof (cases "Bool_Get (serversUpdating s) server")
    case True
    then show ?thesis by (simp add: updateServer_def new_effects_def)
  next
    case busy: False
    show ?thesis
    proof (cases "sint (lastVersion s) \<le> sint (Int64_Get (serversVersions s) server)")
      case True
      then show ?thesis using busy by (simp add: updateServer_def new_effects_def Let_def)
    next
      case behind: False
      have u: "updateServer d server s
          = emit (UpdatingDelete server)
              ((pushConfig d server (lastVersion s) ?s1)
                 \<lparr>serversUpdating := Bool_Delete
                     (serversUpdating (pushConfig d server (lastVersion s) ?s1)) server\<rparr>)"
        using busy behind by (simp add: updateServer_def Let_def)
      show ?thesis
      proof (cases "pushRequest d server s")
        case (Inl err)
        then have "pushConfig d server (lastVersion s) ?s1 = ?s1"
          using pushConfig_cases[of d server ?s1 err] by simp
        then show ?thesis using busy behind Inl by (simp add: u new_effects_def)
      next
        case (Inr req)
        show ?thesis
        proof (cases "\<exists>resp body. Do d req = Inr resp \<and> ReadAll resp = Inr body \<and> StatusCode resp = 200")
          case True
          then have "pushConfig d server (lastVersion s) ?s1
              = emit (VersionsSet server (lastVersion s))
                  ((emit (CallDo req) ?s1)\<lparr>serversVersions :=
                      Int64_Set (serversVersions ?s1) server (lastVersion s)\<rparr>)"
            using pushConfig_cases[of d server ?s1 _ "lastVersion s" req] Inr by simp
          then show ?thesis using busy behind Inr True by (simp add: u new_effects_def)
        next
          case False
          then have "pushConfig d server (lastVersion s) ?s1 = emit (CallDo req) ?s1"
            using pushConfig_cases[of d server ?s1 _ "lastVersion s" req] Inr by simp
          then show ?thesis using busy behind Inr False by (simp add: u new_effects_def)
        qed
      qed
    qed
  qed
qed

lemma pushRequest_Inr:
  assumes "pushRequest d server s = Inr req"
  shows "Method req = ''POST'' \<and> URL req = ''http://'' @ server @ '':2019/load'' \<and>
         Header req = [(''Content-Type'', ''application/json'')] \<and>
         (\<exists>config. json_Unmarshal d (lastJSONConfig s) = Inr config \<and>
            json_Marshal d (config\<lparr>Admin := Some \<lparr>Listen = ''tcp/'' @ server @ '':2019'',
                                                  AdminOther = zeroAdminOther d\<rparr>\<rparr>)
              = Inr (Body req))"
  using assms
  by (auto simp add: pushRequest_def addAdminListen_def http_NewRequest_def Header_Set_def
      Let_def split: sum.splits option.splits)

text \<open>
  Claim C5. One call of \<open>updateServer\<close> hands at most one request to the HTTP client
  (there is no retry inside the call). It sets the server's applied version, to the
  \<open>lastVersion\<close> it read at line 212, exactly when it made a request and the client
  returned a response whose body could be read and whose status is 200; the value
  stored is then greater than the one stored before. In every other case (the call was
  skipped, the payload or the request could not be built, the client returned a
  transport error, reading the body failed, or the status is not 200) the map of
  applied versions is left as it was.
\<close>

theorem C5_applied_version_set_iff_200:
  "length (filter is_CallDo (new_effects s (updateServer d server s))) \<le> 1 \<and>
   (if \<exists>req resp body. CallDo req \<in> set (new_effects s (updateServer d server s)) \<and>
         Do d req = Inr resp \<and> ReadAll resp = Inr body \<and> StatusCode resp = 200
    then serversVersions (updateServer d server s)
           = Int64_Set (serversVersions s) server (lastVersion s) \<and>
         Int64_Get (serversVersions (updateServer d server s)) server = lastVersion s \<and>
         sint (Int64_Get (serversVersions s) server) < sint (lastVersion s) \<and>
         VersionsSet server (lastVersion s) \<in> set (new_effects s (updateServer d server s))
    else serversVersions (updateServer d server s) = serversVersions s \<and>
         (\<forall>v. VersionsSet server v \<notin> set (new_effects s (updateServer d server s))))"
  using updateServer_paths[of s server d]
  by (elim disjE conjE exE) (auto simp add: Int64_Get_def Int64_Set_def)

theorem C5_witness:
  "(\<exists>req resp body.
      CallDo req \<in> set (new_effects (snd (update deps_ok (Some [97], []) (CreateDockerLoader opts0)))
         (updateServer deps_ok ''10.0.0.1''
            (snd (update deps_ok (Some [97], []) (CreateDockerLoader opts0))))) \<and>
      Do deps_ok req = Inr resp \<and> ReadAll resp = Inr body \<and> StatusCode resp = 200) \<and>
   Int64_Get (serversVersions (updateServer deps_ok ''10.0.0.1''
       (snd (update deps_ok (Some [97], []) (CreateDockerLoader opts0))))) ''10.0.0.1'' = 1 \<and>
   \<not> (\<exists>req resp body.
      CallDo req \<in> set (new_effects (snd (update deps_ok (Some [97], []) (CreateDockerLoader opts0)))
         (updateServer deps_500 ''10.0.0.1''
            (snd (update deps_ok (Some [97], []) (CreateDockerLoader opts0))))) \<and>
      Do deps_500 req = Inr resp \<and> ReadAll resp = Inr body \<and> StatusCode resp = 200) \<and>
   serversVersions (updateServer deps_500 ''10.0.0.1''
       (snd (update deps_ok (Some [97], []) (CreateDockerLoader opts0))))
     = serversVersions (snd (update deps_ok (Some [97], []) (CreateDockerLoader opts0)))"
proof -
  have ok: "\<exists>req resp body.
      CallDo req \<in> set (new_effects (snd (update deps_ok (Some [97], []) (CreateDockerLoader opts0)))
         (updateServer deps_ok ''10.0.0.1''
            (snd (update deps_ok (Some [97], []) (CreateDockerLoader opts0))))) \<and>
      Do deps_ok req = Inr resp \<and> ReadAll resp = Inr body \<and> StatusCode resp = 200"
    by (simp add: eval_defs)
  have bad: "\<not> (\<exists>req resp body.
      CallDo req \<in> set (new_effects (snd (update deps_ok (Some [97], []) (CreateDockerLoader opts0)))
         (updateServer deps_500 ''10.0.0.1''
            (snd (update deps_ok (Some [97], []) (CreateDockerLoader opts0))))) \<and>
      Do deps_500 req = Inr resp \<and> ReadAll resp = Inr body \<and> StatusCode resp = 200)"
    by (simp add: deps_500_def)
  have v: "lastVersion (snd (update deps_ok (Some [97], []) (CreateDockerLoader opts0))) = 1"
    by (simp add: eval_defs)
  have i1: "Int64_Get (serversVersions (updateServer deps_ok ''10.0.0.1''
       (snd (update deps_ok (Some [97], []) (CreateDockerLoader opts0))))) ''10.0.0.1''
     = lastVersion (snd (update deps_ok (Some [97], []) (CreateDockerLoader opts0)))"
    using ok C5_applied_version_set_iff_200 [of
        "snd (update deps_ok (Some [97], []) (CreateDockerLoader opts0))" deps_ok "''10.0.0.1''"]
    by meson
  have i2: "serversVersions (updateServer deps_500 ''10.0.0.1''
       (snd (update deps_ok (Some [97], []) (CreateDockerLoader opts0))))
     = serversVersions (snd (update deps_ok (Some [97], []) (CreateDockerLoader opts0)))"
    using bad C5_applied_version_set_iff_200 [of
        "snd (update deps_ok (Some [97], []) (CreateDockerLoader opts0))" deps_500 "''10.0.0.1''"]
    by meson
  show ?thesis
    using ok bad i1 i2 by (simp only: v) blast
qed

text \<open>
  Claim C6, as the code has it. Every request \<open>updateServer\<close> hands to the HTTP client
  for a server is a POST to \<open>http://<server>:2019/load\<close> whose only header is
  \<open>Content-Type: application/json\<close> and whose body is \<open>json.Marshal\<close> of the stored JSON
  configuration, unmarshalled, with its whole admin section replaced by a new one whose
  listen address is \<open>tcp/<server>:2019\<close> and whose other fields have their zero values
  (lines 264 to 266), whatever the admin section of the stored configuration held; and
  it is the only request of that call.
\<close>

theorem C6_payload_and_request:
  assumes "CallDo req \<in> set (new_effects s (updateServer d server s))"
  shows "Method req = ''POST'' \<and> URL req = ''http://'' @ server @ '':2019/load'' \<and>
         Header req = [(''Content-Type'', ''application/json'')] \<and>
         (\<exists>config. json_Unmarshal d (lastJSONConfig s) = Inr config \<and>
            json_Marshal d (config\<lparr>Admin := Some \<lparr>Listen = ''tcp/'' @ server @ '':2019'',
                                                  AdminOther = zeroAdminOther d\<rparr>\<rparr>)
              = Inr (Body req)) \<and>
         filter is_CallDo (new_effects s (updateServer d server s)) = [CallDo req]"
proof -
  have "pushRequest d server s = Inr req \<and>
        filter is_CallDo (new_effects s (updateServer d server s)) = [CallDo req]"
    using updateServer_paths[of s server d] assms by auto
  then show ?thesis using pushRequest_Inr by blast
qed

theorem C6_witness:
  "CallDo \<lparr>Method = ''POST'', URL = ''http://10.0.0.1:2019/load'',
           Header = [(''Content-Type'', ''application/json'')],
           Body = Some (map of_char ''tcp/10.0.0.1:2019'' @ [97])\<rparr>
     \<in> set (new_effects (snd (update deps_ok (Some [97], []) (CreateDockerLoader opts0)))
          (updateServer deps_ok ''10.0.0.1''
             (snd (update deps_ok (Some [97], []) (CreateDockerLoader opts0))))) \<and>
   json_Marshal deps_ok
     (\<lparr>Admin = None, ConfigOther = Some [97]\<rparr>
        \<lparr>Admin := Some \<lparr>Listen = ''tcp/10.0.0.1:2019'', AdminOther = ()\<rparr>\<rparr>)
     = Inr (Some (map of_char ''tcp/10.0.0.1:2019'' @ [97]))"
proof -
  have h: "CallDo \<lparr>Method = ''POST'', URL = ''http://10.0.0.1:2019/load'',
           Header = [(''Content-Type'', ''application/json'')],
           Body = Some (map of_char ''tcp/10.0.0.1:2019'' @ [97])\<rparr>
     \<in> set (new_effects (snd (update deps_ok (Some [97], []) (CreateDockerLoader opts0)))
          (updateServer deps_ok ''10.0.0.1''
             (snd (update deps_ok (Some [97], []) (CreateDockerLoader opts0)))))"
    by (simp add: eval_defs)
  have u: "json_Unmarshal deps_ok
      (lastJSONConfig (snd (update deps_ok (Some [97], []) (CreateDockerLoader opts0))))
      = Inr \<lparr>Admin = None, ConfigOther = Some [97]\<rparr>"
    by (simp add: eval_defs)
  have z: "zeroAdminOther deps_ok = ()" by simp
  show ?thesis
    using h C6_payload_and_request [OF h] u z by auto
qed

text \<open>
  The claim as stated keeps the current configuration and overrides the listen address
  of its admin section. With a stored configuration whose admin section sets another
  field, the body sent carries that field's zero value, while the configuration with
  only the listen address overridden still carries the field as set.
\<close>

theorem C6_counterexample:
  "json_Unmarshal deps_admin
      (lastJSONConfig (snd (update deps_admin (Some [97], []) (CreateDockerLoader opts0))))
     = Inr \<lparr>Admin = Some \<lparr>Listen = ''localhost:2019'', AdminOther = True\<rparr>,
            ConfigOther = Some [97]\<rparr> \<and>
   filter is_CallDo
     (new_effects (snd (update deps_admin (Some [97], []) (CreateDockerLoader opts0)))
        (updateServer deps_admin ''10.0.0.1''
           (snd (update deps_admin (Some [97], []) (CreateDockerLoader opts0)))))
     = [CallDo \<lparr>Method = ''POST'', URL = ''http://10.0.0.1:2019/load'',
                Header = [(''Content-Type'', ''application/json'')],
                Body = Some (map of_char ''tcp/10.0.0.1:2019'' @ [0, 97])\<rparr>] \<and>
   json_Marshal deps_admin
     \<lparr>Admin = Some (\<lparr>Listen = ''localhost:2019'', AdminOther = True\<rparr>
                      \<lparr>Listen := ''tcp/10.0.0.1:2019''\<rparr>),
      ConfigOther = Some [97]\<rparr>
     = Inr (Some (map of_char ''tcp/10.0.0.1:2019'' @ [1, 97]))"
  by (simp add: deps_admin_def eval_defs)

section \<open>Interleaved calls of \<open>updateServer\<close>\<close>

text \<open>
  The atomic steps, taken by one call alone, are the function \<open>updateServer\<close>: the two
  embeddings agree on a call nothing interleaves with.
\<close>

lemmas call_defs =
  exec_def numeral_eq_Suc sys_step_def push_step_def new_task_def updateServer_def
  pushConfig_def Let_def

lemma updateServer_is_uninterrupted_call:
  "loader (exec d (replicate 8 (Move 0)) \<lparr> loader = s, tasks = [new_task server] \<rparr>)
     = updateServer d server s"
proof (cases "Bool_Get (serversUpdating s) server")
  case True
  then show ?thesis by (simp add: call_defs)
next
  case busy: False
  show ?thesis
  proof (cases "sint (lastVersion s) \<le> sint (Int64_Get (serversVersions s) server)")
    case True
    then show ?thesis using busy by (simp add: call_defs)
  next
    case behind: False
    show ?thesis
    proof (cases "pushRequest d server s")
      case (Inl err)
      then show ?thesis using busy behind by (simp add: call_defs)
    next
      case req: (Inr req)
      show ?thesis
      proof (cases "Do d req")
        case (Inl err)
        then show ?thesis using busy behind req by (simp add: call_defs)
      next
        case resp: (Inr resp)
        show ?thesis
        proof (cases "ReadAll resp")
          case (Inl err)
          then show ?thesis using busy behind req resp by (simp add: call_defs)
        next
          case (Inr body)
          then show ?thesis using busy behind req resp
            by (cases "StatusCode resp = 200") (simp_all add: call_defs)
        qed
      qed
    qed
  qed
qed

text \<open>
  What holds of a call on its own: with the flag set it returns at once and changes
  nothing; otherwise the flag is clear again when it returns; and it never lowers an
  applied version.
\<close>

lemma updateServer_busy: "Bool_Get (serversUpdating s) server \<Longrightarrow> updateServer d server s = s"
  by (simp add: updateServer_def)

lemma updateServer_unflags:
  "\<not> Bool_Get (serversUpdating s) server \<Longrightarrow>
   \<not> Bool_Get (serversUpdating (updateServer d server s)) server"
  by (simp add: updateServer_def Let_def Bool_Get_def Bool_Delete_def)

lemma updateServer_applied_mono:
  "sint (Int64_Get (serversVersions s) k)
     \<le> sint (Int64_Get (serversVersions (updateServer d server s)) k)"
  using updateServer_paths[of s server d]
  by (elim disjE conjE exE) (auto simp add: Int64_Get_def Int64_Set_def)

text \<open>
  What holds of every atomic step, whatever interleaves: only the step at line 253
  writes an applied version; that point is reached only from a response that was read
  and has status 200; the request is handed to the client only at \<open>AtSend\<close>, which
  is reached only through the version check with a snapshot greater than the applied
  version read there.
\<close>

lemma push_step_versions:
  "serversVersions (snd (push_step d t s))
     = (if t_pc t = AtRecord then Int64_Set (serversVersions s) (t_server t) (t_version t)
        else serversVersions s)"
  by (cases "t_pc t") (simp_all add: push_step_def Let_def split: sum.splits)

lemma push_step_to_record:
  assumes "t_pc (fst (push_step d t s)) = AtRecord" and "t_pc t \<noteq> AtRecord"
  shows "t_pc t = AtAwait \<and>
         (\<exists>resp body. t_result t = Inr resp \<and> ReadAll resp = Inr body \<and> StatusCode resp = 200)"
  using assms
  by (cases "t_pc t") (auto simp add: push_step_def Let_def split: sum.splits if_splits)

lemma push_step_to_send:
  assumes "t_pc (fst (push_step d t s)) = AtSend" and "t_pc t \<noteq> AtSend"
  shows "t_pc t = AtVersionCheck \<and>
         sint (Int64_Get (serversVersions s) (t_server t)) < sint (t_version t)"
  using assms
  by (cases "t_pc t") (auto simp add: push_step_def Let_def split: sum.splits if_splits)

lemma push_step_calls:
  "filter is_CallDo (new_effects s (snd (push_step d t s))) \<noteq> [] \<Longrightarrow> t_pc t = AtSend"
  by (cases "t_pc t")
    (auto simp add: push_step_def Let_def new_effects_def split: sum.splits if_splits)

text \<open>
  Claim C9: at most one push to a server is in flight at any instant, the busy flag is
  never set twice without a clear between, and a push started while another one runs
  returns at once. The test of the flag (line 204) and its setting (line 209) are two
  operations on the map. In \<open>race_schedule\<close> both calls for 10.0.0.1 test the flag before
  either sets it: both pass, the flag is set twice with no \<open>Delete\<close> between, and both
  calls have their request on the network at the same instant.
\<close>

theorem C9_two_pushes_in_flight:
  "in_flight ''10.0.0.1'' (exec deps_ok race_schedule sys0) = 2 \<and>
   drop 7 (effects (loader (exec deps_ok race_schedule sys0)))
     = [UpdatingSet ''10.0.0.1'' True, UpdatingSet ''10.0.0.1'' True,
        CallDo \<lparr>Method = ''POST'', URL = ''http://10.0.0.1:2019/load'',
                Header = [(''Content-Type'', ''application/json'')],
                Body = Some (map of_char ''tcp/10.0.0.1:2019'' @ [97])\<rparr>,
        CallDo \<lparr>Method = ''POST'', URL = ''http://10.0.0.1:2019/load'',
                Header = [(''Content-Type'', ''application/json'')],
                Body = Some (map of_char ''tcp/10.0.0.1:2019'' @ [97])\<rparr>]"
  by (simp add: sys0_def race_schedule_def in_flight_def sched_defs eval_defs)

text \<open>
  Claim C4: a server's applied version never decreases, and a push is attempted only
  when the snapshot is greater than the applied version. The second part holds of every
  step (\<open>push_step_to_send\<close>, \<open>push_step_calls\<close>), and the first of every call that runs
  alone (\<open>updateServer_applied_mono\<close>). But the version is compared at line 215 and
  written at line 253, and only the busy flag keeps other calls out in between. In
  \<open>regress_schedule\<close> calls 0 and 1 both passed the flag with snapshot 1; call 1 records
  1 and clears the flag while call 0 still waits; call 2, of the next accepted change,
  records 2; then the response of call 0 arrives and line 253 writes 1 over 2.
\<close>

theorem C4_applied_version_goes_back:
  "Int64_Get (serversVersions (loader (exec deps_ok regress_schedule sys0))) ''10.0.0.1'' = 2 \<and>
   Int64_Get (serversVersions (loader (exec deps_ok (regress_schedule @ late_response) sys0)))
     ''10.0.0.1'' = 1"
  by (simp add: sys0_def race_schedule_def regress_schedule_def late_response_def sched_defs
      eval_defs)

section \<open>Further facts about pushes\<close>

text \<open>
  Empty generator output under every interleaving: from a fresh loader, whatever the
  schedule of rebuilds and atomic steps of calls, as long as every rebuild's output is
  empty the version stays 0 and neither the adapter nor the HTTP client is called.
\<close>

lemma push_step_calm:
  assumes "quiet s" and "calm_task t"
  shows "quiet (snd (push_step d t s)) \<and> calm_task (fst (push_step d t s))"
  using assms
  by (cases "t_pc t")
    (simp_all add: push_step_def Let_def quiet_def calm_task_def Int64_Get_def)

lemma sys_step_calm:
  assumes "calm sy" and "empty_move m"
  shows "calm (sys_step d sy m)"
proof (cases m)
  case (Rebuild gen)
  have q: "quiet (loader sy)" using assms(1) by (simp add: calm_def)
  have e: "slice_bytes (fst gen) = []" using assms(2) Rebuild by simp
  have u: "quiet (snd (update d (fst gen, []) (loader sy))) \<and> fst (update d (fst gen, []) (loader sy))"
    using update_quiet[OF q e] by blast
  have n: "list_all calm_task (map new_task (snd gen))"
    by (simp add: list_all_iff calm_task_def new_task_def)
  show ?thesis
    using u n assms(1) Rebuild
    by (cases "update d (fst gen, []) (loader sy)") (simp add: sys_step_def calm_def)
next
  case (Move i)
  show ?thesis
  proof (cases "i < length (tasks sy)")
    case True
    have q: "quiet (loader sy)" using assms(1) by (simp add: calm_def)
    have c: "calm_task (tasks sy ! i)"
      using assms(1) True by (simp add: calm_def list_all_length)
    have r: "quiet (snd (push_step d (tasks sy ! i) (loader sy))) \<and>
             calm_task (fst (push_step d (tasks sy ! i) (loader sy)))"
      using push_step_calm[OF q c] by blast
    have l: "list_all calm_task ((tasks sy)[i := fst (push_step d (tasks sy ! i) (loader sy))])"
      using assms(1) r set_update_subset_insert[of "tasks sy" i
          "fst (push_step d (tasks sy ! i) (loader sy))"]
      by (auto simp add: calm_def list_all_iff)
    show ?thesis
      using True Move r l
      by (cases "push_step d (tasks sy ! i) (loader sy)") (simp add: sys_step_def calm_def)
  next
    case False
    then show ?thesis using assms(1) Move by (simp add: sys_step_def)
  qed
qed

lemma exec_calm:
  "calm sy \<Longrightarrow> \<forall>m\<in>set ms. empty_move m \<Longrightarrow> calm (exec d ms sy)"
proof (induction ms arbitrary: sy)
  case Nil
  then show ?case by (simp add: exec_def)
next
  case (Cons m ms)
  have "calm (sys_step d sy m)" using sys_step_calm[of sy m d] Cons.prems by simp
  then have "calm (exec d ms (sys_step d sy m))" using Cons by simp
  then show ?case by (simp add: exec_def)
qed

lemma empty_output_never_pushes_interleaved:
  assumes "\<forall>m\<in>set ms. empty_move m"
  shows "lastVersion (loader (exec d ms \<lparr>loader = CreateDockerLoader opts, tasks = []\<rparr>)) = 0 \<and>
         filter is_CallDo
           (effects (loader (exec d ms \<lparr>loader = CreateDockerLoader opts, tasks = []\<rparr>))) = [] \<and>
         filter is_CallAdapt
           (effects (loader (exec d ms \<lparr>loader = CreateDockerLoader opts, tasks = []\<rparr>))) = []"
proof -
  have "quiet (CreateDockerLoader opts)"
    by (simp add: quiet_def CreateDockerLoader_def slice_bytes_def newStringInt64CMap_def)
  then have "calm \<lparr>loader = CreateDockerLoader opts, tasks = []\<rparr>"
    by (simp add: calm_def)
  then have "calm (exec d ms \<lparr>loader = CreateDockerLoader opts, tasks = []\<rparr>)"
    using exec_calm assms by blast
  then show ?thesis by (simp add: calm_def quiet_def)
qed

text \<open>
  Rebuilds that run one after the other, each with its pushes one after the other,
  never lower a server's applied version.
\<close>

lemma pushes_applied_mono:
  "sint (Int64_Get (serversVersions s) k)
     \<le> sint (Int64_Get (serversVersions (foldl (\<lambda>st server. updateServer d server st) s srvs)) k)"
proof (induction srvs arbitrary: s)
  case Nil
  then show ?case by simp
next
  case (Cons a srvs)
  have "sint (Int64_Get (serversVersions s) k)
      \<le> sint (Int64_Get (serversVersions (updateServer d a s)) k)"
    by (rule updateServer_applied_mono)
  also have "\<dots> \<le> sint (Int64_Get (serversVersions
      (foldl (\<lambda>st server. updateServer d server st) (updateServer d a s) srvs)) k)"
    by (rule Cons.IH)
  finally show ?case by simp
qed

lemma update_applied_mono:
  "sint (Int64_Get (serversVersions s) k)
     \<le> sint (Int64_Get (serversVersions (snd (update d gen s))) k)"
proof -
  obtain cf srvs where gen: "gen = (cf, srvs)" by (cases gen)
  obtain j w err where ad: "Adapt d cf = (j, w, err)" by (cases "Adapt d cf")
  let ?s4 = "(emit CallGenerate (set_skipEvents False
        (timer_Reset (PollingInterval (options s)) s)))\<lparr>lastCaddyfile := cf\<rparr>"
  let ?s6 = "(emit (CallAdapt cf) ?s4)\<lparr>lastJSONConfig := j,
        lastVersion := lastVersion (emit (CallAdapt cf) ?s4) + 1\<rparr>"
  consider (same) "bytes_Equal (lastCaddyfile s) cf"
    | (bad) "\<not> bytes_Equal (lastCaddyfile s) cf" "err \<noteq> None"
    | (good) "\<not> bytes_Equal (lastCaddyfile s) cf" "err = None"
    by blast
  then show ?thesis
  proof cases
    case same
    then have "update d gen s = (True, foldl (\<lambda>st server. updateServer d server st) ?s4 srvs)"
      by (simp add: update_def Let_def gen)
    then show ?thesis using pushes_applied_mono[of ?s4 k d srvs] by simp
  next
    case bad
    then have "update d gen s = (False, emit (CallAdapt cf) ?s4)"
      by (simp add: update_def Let_def gen ad)
    then show ?thesis by simp
  next
    case good
    then have "update d gen s = (True, foldl (\<lambda>st server. updateServer d server st) ?s6 srvs)"
      by (simp add: update_def Let_def gen ad)
    then show ?thesis using pushes_applied_mono[of ?s6 k d srvs] by simp
  qed
qed

lemma listenEvents_serversVersions:
  "serversVersions (snd (listenEvents msgs s)) = serversVersions s"
  by (induction msgs s rule: listenEvents.induct) simp_all

lemma run_applied_mono:
  "sint (Int64_Get (serversVersions s) k)
     \<le> sint (Int64_Get (serversVersions (run acts s)) k)"
proof (induction acts arbitrary: s)
  case Nil
  then show ?case by (simp add: run_def)
next
  case (Cons a acts)
  have "sint (Int64_Get (serversVersions s) k)
      \<le> sint (Int64_Get (serversVersions (step a s)) k)"
    by (cases a) (simp_all add: update_applied_mono listenEvents_serversVersions
        del: listenEvents.simps)
  also have "\<dots> \<le> sint (Int64_Get (serversVersions (run acts (step a s))) k)"
    by (rule Cons.IH)
  finally show ?case by (simp add: run_Cons)
qed

end
